theory Spec2Isabelle
  imports Complex_Main "HOL-Library.Signed_Division"
begin

section \<open>Data model\<close>

text \<open>
  The program is the K-means driver of \<^verbatim>\<open>prog6_kmeans/kmeansThread.cpp\<close>.

  Conventions of the embedding.
  \<^item> A C \<^verbatim>\<open>double\<close> is a \<^typ>\<open>real\<close>: rounding, infinities and NaN are outside
    the model. The literal \<^verbatim>\<open>1e30\<close> is \<open>10 ^ 30\<close>.
  \<^item> A C \<^verbatim>\<open>int\<close> is an \<^typ>\<open>int\<close>; no claim depends on 32-bit overflow.
    C's \<^verbatim>\<open>/\<close> on ints truncates towards zero, which is \<open>sdiv\<close>.
  \<^item> An array is a list; the pointer \<^verbatim>\<open>&a[off]\<close> is the list \<open>drop (nat off) a\<close>.
    The struct \<^verbatim>\<open>WorkerArgs\<close> holds pointers to arrays shared by all functions;
    the record holds the arrays themselves and every function returns the record with
    the arrays it has written. Field \<^verbatim>\<open>f\<close> of the struct is \<open>f_C\<close>.
  \<^item> A counted loop \<^verbatim>\<open>for (int k = 0; k < K; k++)\<close> is a \<open>fold\<close> over
    \<open>[0..<nat K]\<close> (empty when \<open>K \<le> 0\<close>), or a recursion over that list when the
    body can leave the function.
  \<^item> A \<^verbatim>\<open>new T[n]\<close> with \<open>n < 0\<close> throws \<^verbatim>\<open>std::bad_array_new_length\<close>: the
    error \<open>BadArrayNewLength n\<close>. Exhaustion of memory is not modelled.
  \<^item> Subscripts that are affine in the loop counters stay inside the arrays exactly when
    the arrays have the documented sizes (\<open>M * N\<close>, \<open>K * N\<close>, \<open>M\<close>, \<open>K\<close>) and a
    worker's range lies in \<open>[0, M)\<close>. This is the contract of the caller; for other
    arrays the C program has undefined behaviour and the model says nothing about it.
    Every concrete input below has these sizes. A subscript read from the assignment vector
    (\<^verbatim>\<open>int k = args->clusterAssignments[m]\<close>) is checked by the model: outside
    \<open>[0, K)\<close> the C program has undefined behaviour, and the model returns
    \<open>ClusterIndexOutOfRange k\<close>.
\<close>

datatype error =
    ThreadCountNotPositive int
  | ClusterIndexOutOfRange int
  | BadArrayNewLength int

record WorkerArgs =
  start_C :: int
  end_C :: int
  data_C :: "real list"
  clusterCentroids_C :: "real list"
  clusterAssignments_C :: "int list"
  currCost_C :: "real list"
  M_C :: int
  N_C :: int
  K_C :: int
  threadId_C :: int
  numThreads_C :: int

section \<open>Convergence test and distance\<close>

text \<open>
  \<^verbatim>\<open>abs\<close> is applied to a \<^verbatim>\<open>double\<close>: with \<^verbatim>\<open><math.h>\<close>, \<^verbatim>\<open><stdlib.h>\<close> and
  \<^verbatim>\<open>using namespace std\<close> the call resolves to the floating-point overload.
\<close>

fun stoppingScan :: "real list \<Rightarrow> real list \<Rightarrow> real \<Rightarrow> nat list \<Rightarrow> bool" where
  "stoppingScan prevCost currCost epsilon [] = True"
| "stoppingScan prevCost currCost epsilon (k # ks) =
     (if \<bar>prevCost ! k - currCost ! k\<bar> > epsilon then False
      else stoppingScan prevCost currCost epsilon ks)"

definition stoppingConditionMet :: "real list \<Rightarrow> real list \<Rightarrow> real \<Rightarrow> int \<Rightarrow> bool" where
  "stoppingConditionMet prevCost currCost epsilon K =
     stoppingScan prevCost currCost epsilon [0..<nat K]"

text \<open>\<^verbatim>\<open>dist\<close> of the source; the name \<open>dist\<close> is the metric of HOL.\<close>

definition distL2 :: "real list \<Rightarrow> real list \<Rightarrow> int \<Rightarrow> real" where
  "distL2 x y nDim =
     sqrt (fold (\<lambda>i accum. accum + (x ! i - y ! i) ^ 2) [0..<nat nDim] 0)"

section \<open>Assignment kernel\<close>

text \<open>
  First loop of \<^verbatim>\<open>workerThreadStart\<close>: \<^verbatim>\<open>minDist[i] = 1e30\<close> and
  \<^verbatim>\<open>clusterAssignments[start + i] = -1\<close>.
\<close>

definition kernelInit :: "WorkerArgs \<Rightarrow> nat \<Rightarrow> real list \<times> int list \<Rightarrow> real list \<times> int list" where
  "kernelInit args i = (\<lambda>(minDist, asg).
     (minDist[i := 10 ^ 30], asg[nat (start_C args + int i) := - 1]))"

text \<open>Body of the inner loop over the centroids \<open>k\<close>, for the \<open>i\<close>-th point of the range.\<close>

definition kernelStep :: "WorkerArgs \<Rightarrow> nat \<Rightarrow> nat \<Rightarrow> real list \<times> int list \<Rightarrow> real list \<times> int list" where
  "kernelStep args i k = (\<lambda>(minDist, asg).
     let m = start_C args + int i;
         d = distL2 (drop (nat (m * N_C args)) (data_C args))
                    (drop (nat (int k * N_C args)) (clusterCentroids_C args)) (N_C args)
     in if d < minDist ! i then (minDist[i := d], asg[nat m := int k]) else (minDist, asg))"

text \<open>
  \<^verbatim>\<open>new double[numPoints]\<close> is uninitialised; every entry is written by the first loop
  before it is read, so the model starts it with zeros.
\<close>

definition workerThreadStart :: "WorkerArgs \<Rightarrow> error + WorkerArgs" where
  "workerThreadStart args =
     (let numPoints = end_C args - start_C args
      in if numPoints < 0 then Inl (BadArrayNewLength numPoints)
         else
           let st0 = (replicate (nat numPoints) (0::real), clusterAssignments_C args);
               st1 = fold (kernelInit args) [0..<nat numPoints] st0;
               st2 = fold (\<lambda>i. fold (kernelStep args i) [0..<nat (K_C args)])
                       [0..<nat numPoints] st1
           in Inr (args\<lparr>clusterAssignments_C := snd st2\<rparr>))"

section \<open>Dispatcher\<close>

text \<open>First loop of \<^verbatim>\<open>computeAssignments\<close>: the array \<^verbatim>\<open>args_arr\<close>.\<close>

definition args_arr :: "WorkerArgs \<Rightarrow> int \<Rightarrow> WorkerArgs list" where
  "args_arr args numThreads =
     (let numPointsPerThread = M_C args sdiv numThreads
      in map (\<lambda>i. args\<lparr>threadId_C := int i, numThreads_C := numThreads,
                       start_C := numPointsPerThread * int i,
                       end_C := min (numPointsPerThread * (int i + 1)) (M_C args)\<rparr>)
             [0..<nat numThreads])"

text \<open>
  The workers share the arrays. Each reads \<open>data\<close> and \<open>clusterCentroids\<close>, which
  nobody writes during the phase, and writes only its own entries of
  \<open>clusterAssignments\<close>; the model runs them one after the other on the shared
  assignment vector and returns after the last one, as the caller does after the joins.
  An exception that leaves a worker ends the program, in a spawned thread as in the
  inline call; the model returns the error of the first such worker.
  With \<open>numThreads \<le> 0\<close> the C function divides by zero or declares arrays of
  non-positive length and reads \<^verbatim>\<open>args_arr[0]\<close> uninitialised: undefined behaviour, an
  error of the model.
\<close>

fun runWorkers :: "WorkerArgs list \<Rightarrow> int list \<Rightarrow> error + int list" where
  "runWorkers [] asg = Inr asg"
| "runWorkers (w # ws) asg =
     (case workerThreadStart (w\<lparr>clusterAssignments_C := asg\<rparr>) of
        Inl e \<Rightarrow> Inl e
      | Inr w' \<Rightarrow> runWorkers ws (clusterAssignments_C w'))"

definition computeAssignments :: "WorkerArgs \<Rightarrow> int \<Rightarrow> error + WorkerArgs" where
  "computeAssignments args numThreads =
     (if numThreads \<le> 0 then Inl (ThreadCountNotPositive numThreads)
      else case runWorkers (args_arr args numThreads) (clusterAssignments_C args) of
             Inl e \<Rightarrow> Inl e
           | Inr asg \<Rightarrow> Inr (args\<lparr>clusterAssignments_C := asg\<rparr>))"

section \<open>Centroid updater\<close>

definition zeroCentroids :: "WorkerArgs \<Rightarrow> nat \<Rightarrow> int list \<times> real list \<Rightarrow> int list \<times> real list" where
  "zeroCentroids args k = (\<lambda>(counts, cents).
     (counts[k := 0],
      fold (\<lambda>n c. c[nat (int k * N_C args + int n) := 0]) [0..<nat (N_C args)] cents))"

text \<open>
  Second loop: \<^verbatim>\<open>counts[k]\<close> and \<^verbatim>\<open>clusterCentroids[k * N + n]\<close> are inside their
  arrays exactly when \<open>0 \<le> k < K\<close>.
\<close>

fun sumContributions ::
  "WorkerArgs \<Rightarrow> nat list \<Rightarrow> int list \<times> real list \<Rightarrow> error + (int list \<times> real list)" where
  "sumContributions args [] st = Inr st"
| "sumContributions args (m # ms) (counts, cents) =
     (let k = clusterAssignments_C args ! m
      in if 0 \<le> k \<and> k < K_C args
         then sumContributions args ms
                (counts[nat k := counts ! nat k + 1],
                 fold (\<lambda>n c. c[nat (k * N_C args + int n) :=
                                 c ! nat (k * N_C args + int n)
                                 + data_C args ! nat (int m * N_C args + int n)])
                      [0..<nat (N_C args)] cents)
         else Inl (ClusterIndexOutOfRange k))"

definition computeMeans :: "WorkerArgs \<Rightarrow> nat \<Rightarrow> int list \<times> real list \<Rightarrow> int list \<times> real list" where
  "computeMeans args k = (\<lambda>(counts, cents).
     let counts' = counts[k := max (counts ! k) 1]
     in (counts',
         fold (\<lambda>n c. c[nat (int k * N_C args + int n) :=
                         c ! nat (int k * N_C args + int n) / real_of_int (counts' ! k)])
              [0..<nat (N_C args)] cents))"

text \<open>
  \<^verbatim>\<open>new int[K]\<close> throws for \<open>K < 0\<close>; the array is uninitialised and zeroed by the
  first loop.
\<close>

definition computeCentroids :: "WorkerArgs \<Rightarrow> error + WorkerArgs" where
  "computeCentroids args =
     (if K_C args < 0 then Inl (BadArrayNewLength (K_C args))
      else
        let st0 = (replicate (nat (K_C args)) (0::int), clusterCentroids_C args);
            st1 = fold (zeroCentroids args) [0..<nat (K_C args)] st0
        in case sumContributions args [0..<nat (M_C args)] st1 of
             Inl e \<Rightarrow> Inl e
           | Inr st2 \<Rightarrow>
               Inr (args\<lparr>clusterCentroids_C :=
                      snd (fold (computeMeans args) [0..<nat (K_C args)] st2)\<rparr>))"

section \<open>Cost evaluator\<close>

fun sumCost :: "WorkerArgs \<Rightarrow> nat list \<Rightarrow> real list \<Rightarrow> error + real list" where
  "sumCost args [] accum = Inr accum"
| "sumCost args (m # ms) accum =
     (let k = clusterAssignments_C args ! m
      in if 0 \<le> k \<and> k < K_C args
         then sumCost args ms
                (accum[nat k := accum ! nat k
                   + distL2 (drop (nat (int m * N_C args)) (data_C args))
                            (drop (nat (k * N_C args)) (clusterCentroids_C args)) (N_C args)])
         else Inl (ClusterIndexOutOfRange k))"

text \<open>\<^verbatim>\<open>new double[K]\<close> throws for \<open>K < 0\<close>; the first loop zeroes the array.\<close>

definition computeCost :: "WorkerArgs \<Rightarrow> error + WorkerArgs" where
  "computeCost args =
     (if K_C args < 0 then Inl (BadArrayNewLength (K_C args))
      else
        let accum0 = fold (\<lambda>k a. a[k := 0]) [0..<nat (K_C args)]
                       (replicate (nat (K_C args)) (0::real))
        in case sumCost args [0..<nat (M_C args)] accum0 of
             Inl e \<Rightarrow> Inl e
           | Inr accum \<Rightarrow>
               Inr (args\<lparr>currCost_C :=
                      fold (\<lambda>k c. c[k := accum ! k]) [0..<nat (K_C args)] (currCost_C args)\<rparr>))"

section \<open>Convergence driver\<close>

text \<open>One pass of the body of the \<^verbatim>\<open>while\<close> loop, on \<open>(prevCost, args)\<close>.\<close>

definition kMeansIter :: "int \<Rightarrow> real list \<times> WorkerArgs \<Rightarrow> error + (real list \<times> WorkerArgs)" where
  "kMeansIter numThreads = (\<lambda>(prevCost, args).
     let prevCost' = fold (\<lambda>k p. p[k := currCost_C args ! k]) [0..<nat (K_C args)] prevCost
     in case computeAssignments args numThreads of
          Inl e \<Rightarrow> Inl e
        | Inr a1 \<Rightarrow>
           (case computeCentroids a1 of
              Inl e \<Rightarrow> Inl e
            | Inr a2 \<Rightarrow>
               (case computeCost a2 of
                  Inl e \<Rightarrow> Inl e
                | Inr a3 \<Rightarrow> Inr (prevCost', a3))))"

text \<open>
  The \<^verbatim>\<open>while\<close> loop has no iteration bound: \<open>None\<close> is the run that never leaves it.
\<close>

partial_function (option) kMeansLoop ::
  "real \<Rightarrow> int \<Rightarrow> real list \<times> WorkerArgs \<Rightarrow> (error + WorkerArgs) option" where
  "kMeansLoop epsilon numThreads st =
     (if stoppingConditionMet (fst st) (currCost_C (snd st)) epsilon (K_C (snd st))
      then Some (Inr (snd st))
      else case kMeansIter numThreads st of
             Inl e \<Rightarrow> Some (Inl e)
           | Inr st' \<Rightarrow> kMeansLoop epsilon numThreads st')"

text \<open>
  \<^verbatim>\<open>kMeansThread\<close> returns nothing; its outputs are the centroid and assignment arrays
  of the caller, which the model returns. \<^verbatim>\<open>new double[K]\<close> with \<open>K < 0\<close> throws
  \<^verbatim>\<open>std::bad_array_new_length\<close>. The fields \<open>start\<close>, \<open>end\<close>, \<open>threadId\<close> and
  \<open>numThreads\<close> of the driver's own \<open>args\<close> are never set nor read.
\<close>

definition kMeansThreadWith ::
  "int \<Rightarrow> real list \<Rightarrow> real list \<Rightarrow> int list \<Rightarrow> int \<Rightarrow> int \<Rightarrow> int \<Rightarrow> real
     \<Rightarrow> (error + real list \<times> int list) option" where
  "kMeansThreadWith numThreads data clusterCentroids clusterAssignments M N K epsilon =
     (if K < 0 then Some (Inl (BadArrayNewLength K))
      else
        let prevCost0 = replicate (nat K) (0::real);
            currCost0 = replicate (nat K) (0::real);
            args = \<lparr>start_C = 0, end_C = 0, data_C = data,
                    clusterCentroids_C = clusterCentroids,
                    clusterAssignments_C = clusterAssignments,
                    currCost_C = currCost0, M_C = M, N_C = N, K_C = K,
                    threadId_C = 0, numThreads_C = 0\<rparr>;
            (prevCost, currCost) =
               fold (\<lambda>k (p, c). (p[k := 10 ^ 30], c[k := 0])) [0..<nat K] (prevCost0, currCost0)
        in case kMeansLoop epsilon numThreads (prevCost, args\<lparr>currCost_C := currCost\<rparr>) of
             None \<Rightarrow> None
           | Some (Inl e) \<Rightarrow> Some (Inl e)
           | Some (Inr a) \<Rightarrow> Some (Inr (clusterCentroids_C a, clusterAssignments_C a)))"

text \<open>The source fixes the local \<^verbatim>\<open>int numThreads = 16\<close>.\<close>

definition kMeansThread ::
  "real list \<Rightarrow> real list \<Rightarrow> int list \<Rightarrow> int \<Rightarrow> int \<Rightarrow> int \<Rightarrow> real
     \<Rightarrow> (error + real list \<times> int list) option" where
  "kMeansThread data clusterCentroids clusterAssignments M N K epsilon =
     kMeansThreadWith 16 data clusterCentroids clusterAssignments M N K epsilon"

section \<open>Notions used to state the properties\<close>

text \<open>
  The distance the kernel computes for point \<open>m\<close> and centroid \<open>k\<close>: the call
  \<^verbatim>\<open>dist(&data[m * N], &clusterCentroids[k * N], N)\<close>.
\<close>

definition pointDist :: "WorkerArgs \<Rightarrow> int \<Rightarrow> nat \<Rightarrow> real" where
  "pointDist args m k =
     distL2 (drop (nat (m * N_C args)) (data_C args))
            (drop (nat (int k * N_C args)) (clusterCentroids_C args)) (N_C args)"

text \<open>
  What the inner loop does to the pair \<^verbatim>\<open>(minDist[i], clusterAssignments[m])\<close> of one
  point, and the entry it leaves after all \<open>K\<close> centroids.
\<close>

definition scanStep :: "(nat \<Rightarrow> real) \<Rightarrow> nat \<Rightarrow> real \<times> int \<Rightarrow> real \<times> int" where
  "scanStep d k = (\<lambda>(md, a). if d k < md then (d k, int k) else (md, a))"

definition nearest :: "WorkerArgs \<Rightarrow> int \<Rightarrow> int" where
  "nearest args m =
     snd (fold (scanStep (pointDist args m)) [0..<nat (K_C args)] (10 ^ 30, - 1))"

text \<open>The half-open ranges \<^verbatim>\<open>[start, end)\<close> the dispatcher hands to its workers.\<close>

definition workerRanges :: "WorkerArgs \<Rightarrow> int \<Rightarrow> (int \<times> int) list" where
  "workerRanges args numThreads = map (\<lambda>w. (start_C w, end_C w)) (args_arr args numThreads)"

text \<open>
  The sizes the interface documents: \<open>M * N\<close> values of points, \<open>K * N\<close> values of
  centroids, \<open>M\<close> assignment entries.
\<close>

definition wellSized :: "WorkerArgs \<Rightarrow> bool" where
  "wellSized args \<longleftrightarrow>
     length (data_C args) = nat (M_C args) * nat (N_C args) \<and>
     length (clusterCentroids_C args) = nat (K_C args) * nat (N_C args) \<and>
     length (clusterAssignments_C args) = nat (M_C args)"

text \<open>The points assigned to cluster \<open>k\<close> by the assignment vector.\<close>

definition members :: "WorkerArgs \<Rightarrow> nat \<Rightarrow> nat set" where
  "members args k =
     set (filter (\<lambda>m. clusterAssignments_C args ! m = int k) [0..<nat (M_C args)])"


section \<open>Updating arrays in a loop\<close>

lemma fold_const_upd_length [simp]:
  "length (fold (\<lambda>i xs. xs[f i := c]) is xs) = length xs"
  by (induction "is" arbitrary: xs) auto

lemma fold_const_upd_nth:
  "j < length xs \<Longrightarrow>
   fold (\<lambda>i xs. xs[f i := c]) is xs ! j = (if j \<in> f ` set is then c else xs ! j)"
  by (induction "is" arbitrary: xs) (auto simp: nth_list_update)

lemma fold_upd_length [simp]:
  "length (fold (\<lambda>i xs. xs[f i := g i]) is xs) = length xs"
  by (induction "is" arbitrary: xs) auto

lemma fold_upd_nth_other:
  "j \<notin> f ` set is \<Longrightarrow> fold (\<lambda>i xs. xs[f i := g i]) is xs ! j = xs ! j"
  by (induction "is" arbitrary: xs) auto

lemma fold_upd_nth_hit:
  "i \<in> set is \<Longrightarrow> inj_on f (set is) \<Longrightarrow> distinct is \<Longrightarrow> f i < length xs \<Longrightarrow>
   fold (\<lambda>i xs. xs[f i := g i]) is xs ! f i = g i"
proof (induction "is" arbitrary: xs)
  case Nil
  then show ?case by simp
next
  case (Cons a "is")
  show ?case
  proof (cases "i = a")
    case True
    have "f a \<notin> f ` set is"
      using Cons.prems by (auto simp: inj_on_def)
    then show ?thesis
      using Cons.prems True by (simp add: fold_upd_nth_other)
  next
    case False
    then show ?thesis
      using Cons by (auto simp: inj_on_def)
  qed
qed

section \<open>The kernel, entry by entry\<close>

lemma kernelStep_fold:
  assumes "i < length md" "nat (start_C args + int i) < length a"
  shows "fold (kernelStep args i) ks (md, a) =
     (let r = fold (scanStep (pointDist args (start_C args + int i))) ks
                (md ! i, a ! nat (start_C args + int i))
      in (md[i := fst r], a[nat (start_C args + int i) := snd r]))"
  using assms
proof (induction ks arbitrary: md a)
  case Nil
  then show ?case by simp
next
  case (Cons k ks)
  then show ?case
    by (simp add: kernelStep_def scanStep_def pointDist_def Let_def)
qed

lemma kernelInit_fold:
  "fold (kernelInit args) is (md, a) =
     (fold (\<lambda>i xs. xs[i := 10 ^ 30]) is md,
      fold (\<lambda>i xs. xs[nat (start_C args + int i) := - 1]) is a)"
  by (induction "is" arbitrary: md a) (auto simp: kernelInit_def)

lemma kernel_outer:
  assumes "distinct is" "0 \<le> start_C args"
    and "\<forall>i\<in>set is. i < length md \<and> nat (start_C args + int i) < length a"
    and "\<forall>i\<in>set is. md ! i = md0 ! i \<and> a ! nat (start_C args + int i) = a0 ! nat (start_C args + int i)"
  shows "fold (\<lambda>i. fold (kernelStep args i) ks) is (md, a) =
     (fold (\<lambda>i xs. xs[i := fst (fold (scanStep (pointDist args (start_C args + int i))) ks
                (md0 ! i, a0 ! nat (start_C args + int i)))]) is md,
      fold (\<lambda>i xs. xs[nat (start_C args + int i) :=
              snd (fold (scanStep (pointDist args (start_C args + int i))) ks
                (md0 ! i, a0 ! nat (start_C args + int i)))]) is a)"
  using assms
proof (induction "is" arbitrary: md a)
  case Nil
  then show ?case by simp
next
  case (Cons i "is")
  have neq: "\<forall>i'\<in>set is. i' \<noteq> i \<and> nat (start_C args + int i') \<noteq> nat (start_C args + int i)"
    using Cons.prems by (auto simp: nat_add_distrib)
  let ?r = "fold (scanStep (pointDist args (start_C args + int i))) ks
              (md0 ! i, a0 ! nat (start_C args + int i))"
  let ?md = "md[i := fst ?r]" and ?a = "a[nat (start_C args + int i) := snd ?r]"
  have step: "fold (kernelStep args i) ks (md, a) = (?md, ?a)"
    using Cons.prems by (simp add: kernelStep_fold Let_def)
  have "fold (\<lambda>i. fold (kernelStep args i) ks) is (?md, ?a) =
     (fold (\<lambda>i xs. xs[i := fst (fold (scanStep (pointDist args (start_C args + int i))) ks
                (md0 ! i, a0 ! nat (start_C args + int i)))]) is ?md,
      fold (\<lambda>i xs. xs[nat (start_C args + int i) :=
              snd (fold (scanStep (pointDist args (start_C args + int i))) ks
                (md0 ! i, a0 ! nat (start_C args + int i)))]) is ?a)"
    using Cons.prems neq by (intro Cons.IH) auto
  then show ?case
    by (simp add: step)
qed

lemma workerThreadStart_frame:
  "workerThreadStart args = Inr a \<Longrightarrow>
   a = args\<lparr>clusterAssignments_C := clusterAssignments_C a\<rparr>"
  by (auto simp: workerThreadStart_def Let_def split: if_splits)

lemma workerThreadStart_Inl:
  "end_C args < start_C args \<Longrightarrow>
   workerThreadStart args = Inl (BadArrayNewLength (end_C args - start_C args))"
  by (simp add: workerThreadStart_def Let_def)

lemma workerThreadStart_asg:
  assumes s0: "0 \<le> start_C args"
    and se: "start_C args \<le> end_C args"
    and e: "end_C args \<le> int (length (clusterAssignments_C args))"
  shows "\<exists>asg'. workerThreadStart args = Inr (args\<lparr>clusterAssignments_C := asg'\<rparr>) \<and>
    length asg' = length (clusterAssignments_C args) \<and>
    (\<forall>j<length (clusterAssignments_C args).
       asg' ! j = (if start_C args \<le> int j \<and> int j < end_C args then nearest args (int j)
                   else clusterAssignments_C args ! j))"
proof -
  define n where "n = nat (end_C args - start_C args)"
  define asg where "asg = clusterAssignments_C args"
  define f where "f = (\<lambda>i. nat (start_C args + int i))"
  define md1 where "md1 = fold (\<lambda>i xs. xs[i := 10 ^ 30]) [0..<n] (replicate n (0::real))"
  define a1 where "a1 = fold (\<lambda>i xs. xs[f i := - 1]) [0..<n] asg"
  define R where "R = (\<lambda>i. fold (scanStep (pointDist args (start_C args + int i)))
                [0..<nat (K_C args)] (md1 ! i, a1 ! f i))"
  define asg' where "asg' = fold (\<lambda>i xs. xs[f i := snd (R i)]) [0..<n] a1"
  have f_eq: "f i = nat (start_C args) + i" for i
    using s0 by (simp add: f_def nat_add_distrib)
  have inj: "inj_on f (set [0..<n])"
    by (simp add: inj_on_def f_eq)
  have bound: "\<forall>i\<in>set [0..<n]. i < length md1 \<and> f i < length a1"
    using e s0 by (auto simp: md1_def a1_def f_eq n_def asg_def)
  have init: "fold (kernelInit args) [0..<n] (replicate n 0, asg) = (md1, a1)"
    by (simp add: kernelInit_fold md1_def a1_def f_def)
  have outer: "snd (fold (\<lambda>i. fold (kernelStep args i) [0..<nat (K_C args)]) [0..<n] (md1, a1)) =
     asg'"
    unfolding asg'_def using bound s0
    by (subst kernel_outer [where ?md0.0 = md1 and ?a0.0 = a1]) (auto simp: f_def R_def)
  have "\<not> end_C args - start_C args < 0"
    using se by simp
  then have res: "workerThreadStart args = Inr (args\<lparr>clusterAssignments_C := asg'\<rparr>)"
    unfolding workerThreadStart_def Let_def n_def [symmetric] asg_def [symmetric]
    by (simp add: init outer)
  have len: "length asg' = length (clusterAssignments_C args)"
    by (simp add: asg'_def a1_def asg_def)
  have nth: "asg' ! j =
           (if start_C args \<le> int j \<and> int j < end_C args then nearest args (int j)
            else clusterAssignments_C args ! j)"
    if j: "j < length (clusterAssignments_C args)" for j
  proof (cases "start_C args \<le> int j \<and> int j < end_C args")
    case True
    define i where "i = j - nat (start_C args)"
    have i: "i < n" "f i = j" "start_C args + int i = int j"
      using True s0 by (auto simp: i_def n_def f_eq)
    have "md1 ! i = 10 ^ 30"
      using i by (simp add: md1_def fold_const_upd_nth)
    moreover have "j \<in> f ` set [0..<n]"
      using i(1) i(2) [symmetric] by simp
    then have "a1 ! j = - 1"
      using j by (simp add: a1_def fold_const_upd_nth asg_def del: set_upt)
    then have "a1 ! f i = - 1"
      by (simp add: i)
    ultimately have "snd (R i) = nearest args (int j)"
      using i by (simp add: R_def nearest_def)
    moreover have "fold (\<lambda>i xs. xs[f i := snd (R i)]) [0..<n] a1 ! f i = snd (R i)"
      using i j inj by (intro fold_upd_nth_hit) (auto simp: a1_def asg_def)
    ultimately show ?thesis
      using True i by (simp add: asg'_def)
  next
    case False
    have "j \<notin> f ` set [0..<n]"
      using False s0 by (auto simp: f_eq n_def)
    then have "fold (\<lambda>i xs. xs[f i := snd (R i)]) [0..<n] a1 ! j = a1 ! j"
      and "a1 ! j = asg ! j"
      using j by (simp_all add: fold_upd_nth_other a1_def fold_const_upd_nth asg_def)
    then show ?thesis
      using False by (auto simp: asg'_def asg_def)
  qed
  from res len nth show ?thesis
    by blast
qed

lemma pointDist_cong:
  "data_C w = data_C args \<Longrightarrow> clusterCentroids_C w = clusterCentroids_C args \<Longrightarrow>
   N_C w = N_C args \<Longrightarrow> pointDist w = pointDist args"
  by (simp add: pointDist_def fun_eq_iff)

lemma nearest_cong:
  "data_C w = data_C args \<Longrightarrow> clusterCentroids_C w = clusterCentroids_C args \<Longrightarrow>
   N_C w = N_C args \<Longrightarrow> K_C w = K_C args \<Longrightarrow> nearest w = nearest args"
  by (simp add: nearest_def pointDist_cong [of w args] fun_eq_iff)

text \<open>In one dimension the distance is the absolute difference.\<close>

lemma distL2_1 [simp]: "distL2 (x # xs) (y # ys) 1 = \<bar>x - y\<bar>"
  by (simp add: distL2_def)

section \<open>The kernel does not read the assignment vector\<close>

text \<open>
  Claim C10. For a fixed point set, centroid array and range \<open>[start, end)\<close>, the entries
  that \<open>workerThreadStart\<close> leaves in \<open>clusterAssignments[start..end)\<close> are the same
  whatever the assignment vector held before the call: two runs from two different prior
  contents \<open>asg1\<close> and \<open>asg2\<close> both succeed and agree on every index of the range.
\<close>

theorem workerThreadStart_ignores_prior_assignments:
  assumes "0 \<le> start_C args" and "end_C args \<le> int (length asg1)"
    and "length asg2 = length asg1"
    and "start_C args \<le> int j" and "int j < end_C args"
  shows "\<exists>a1 a2. workerThreadStart (args\<lparr>clusterAssignments_C := asg1\<rparr>) = Inr a1 \<and>
           workerThreadStart (args\<lparr>clusterAssignments_C := asg2\<rparr>) = Inr a2 \<and>
           clusterAssignments_C a1 ! j = clusterAssignments_C a2 ! j"
proof -
  let ?args1 = "args\<lparr>clusterAssignments_C := asg1\<rparr>"
  let ?args2 = "args\<lparr>clusterAssignments_C := asg2\<rparr>"
  have n: "nearest ?args1 = nearest ?args2"
    by (rule trans [OF nearest_cong [of _ args] nearest_cong [of _ args, symmetric]]) simp_all
  have j: "j < length asg1"
    using assms by simp
  have "\<exists>r1. workerThreadStart ?args1 = Inr (?args1\<lparr>clusterAssignments_C := r1\<rparr>) \<and>
    length r1 = length (clusterAssignments_C ?args1) \<and>
    (\<forall>j<length (clusterAssignments_C ?args1).
       r1 ! j = (if start_C ?args1 \<le> int j \<and> int j < end_C ?args1
                 then nearest ?args1 (int j) else clusterAssignments_C ?args1 ! j))"
    using assms by (intro workerThreadStart_asg) simp_all
  then obtain r1 where r1: "workerThreadStart ?args1 = Inr (?args1\<lparr>clusterAssignments_C := r1\<rparr>)"
    "r1 ! j = nearest ?args1 (int j)"
    using assms j by auto
  have "\<exists>r2. workerThreadStart ?args2 = Inr (?args2\<lparr>clusterAssignments_C := r2\<rparr>) \<and>
    length r2 = length (clusterAssignments_C ?args2) \<and>
    (\<forall>j<length (clusterAssignments_C ?args2).
       r2 ! j = (if start_C ?args2 \<le> int j \<and> int j < end_C ?args2
                 then nearest ?args2 (int j) else clusterAssignments_C ?args2 ! j))"
    using assms by (intro workerThreadStart_asg) simp_all
  then obtain r2 where r2: "workerThreadStart ?args2 = Inr (?args2\<lparr>clusterAssignments_C := r2\<rparr>)"
    "r2 ! j = nearest ?args2 (int j)"
    using assms j by auto
  from r1 r2 n show ?thesis
    by simp
qed

text \<open>
  Three points \<open>0, 1, 10\<close> on a line, centroids \<open>2\<close> and \<open>9\<close>, range \<open>[1, 3)\<close>: from
  the prior contents \<open>[7, 7, 7]\<close> and \<open>[0, -1, 0]\<close> the kernel writes \<open>0\<close> and \<open>1\<close>
  into entries 1 and 2, and leaves entry 0 alone.
\<close>

theorem workerThreadStart_ignores_prior_assignments_witness:
  "workerThreadStart \<lparr>start_C = 1, end_C = 3, data_C = [0, 1, 10], clusterCentroids_C = [2, 9],
       clusterAssignments_C = [7, 7, 7], currCost_C = [0, 0], M_C = 3, N_C = 1, K_C = 2,
       threadId_C = 0, numThreads_C = 1\<rparr>
   = Inr \<lparr>start_C = 1, end_C = 3, data_C = [0, 1, 10], clusterCentroids_C = [2, 9],
       clusterAssignments_C = [7, 0, 1], currCost_C = [0, 0], M_C = 3, N_C = 1, K_C = 2,
       threadId_C = 0, numThreads_C = 1\<rparr> \<and>
   workerThreadStart \<lparr>start_C = 1, end_C = 3, data_C = [0, 1, 10], clusterCentroids_C = [2, 9],
       clusterAssignments_C = [0, - 1, 0], currCost_C = [0, 0], M_C = 3, N_C = 1, K_C = 2,
       threadId_C = 0, numThreads_C = 1\<rparr>
   = Inr \<lparr>start_C = 1, end_C = 3, data_C = [0, 1, 10], clusterCentroids_C = [2, 9],
       clusterAssignments_C = [0, 0, 1], currCost_C = [0, 0], M_C = 3, N_C = 1, K_C = 2,
       threadId_C = 0, numThreads_C = 1\<rparr> \<and>
   [7, 0, 1] ! 2 = [0, 0, 1 :: int] ! 2"
  using workerThreadStart_ignores_prior_assignments
    [of "\<lparr>start_C = 1, end_C = 3, data_C = [0, 1, 10], clusterCentroids_C = [2, 9],
       clusterAssignments_C = [], currCost_C = [0, 0], M_C = 3, N_C = 1, K_C = 2,
       threadId_C = 0, numThreads_C = 1\<rparr>" "[7, 7, 7]" "[0, - 1, 0]" 2]
  by (simp add: workerThreadStart_def kernelInit_def kernelStep_def Let_def eval_nat_numeral)

section \<open>The ranges of the dispatcher\<close>

text \<open>
  Claim C1 says that \<open>computeAssignments\<close> cuts \<open>[0, M)\<close> into \<open>T\<close> ranges of size
  \<open>\<lceil>M / T\<rceil>\<close>, the last one truncated to \<open>M\<close>, which together cover every index exactly
  once. The code computes the range size as \<^verbatim>\<open>args->M / numThreads\<close>, the quotient
  rounded down. With \<open>M = 4\<close> points and the driver's 16 workers every range is the empty
  \<open>[0, 0)\<close>; with \<open>M = 10\<close> and 3 workers the ranges are \<open>[0, 3)\<close>, \<open>[3, 6)\<close>,
  \<open>[6, 9)\<close> and index 9 is in none of them.
\<close>

theorem computeAssignments_floor_ranges:
  "workerRanges (args\<lparr>M_C := 4\<rparr>) 16 = replicate 16 (0, 0) \<and>
   workerRanges (args\<lparr>M_C := 10\<rparr>) 3 = [(0, 3), (3, 6), (6, 9)]"
  by (simp add: workerRanges_def args_arr_def signed_divide_int_def eval_nat_numeral)

section \<open>What the scan over the centroids leaves\<close>

text \<open>
  After the centroids \<open>0, \<dots>, n - 1\<close> the pair (running minimum, entry) is either still
  (sentinel, \<open>-1\<close>), when no distance was below the sentinel, or (\<open>d r\<close>, \<open>r\<close>) for the
  first index \<open>r\<close> whose distance is the least one.
\<close>

lemma scan_invariant:
  "\<exists>md a. fold (scanStep d) [0..<n] (B, - 1) = (md, a) \<and>
     ((a = - 1 \<and> md = B \<and> (\<forall>k<n. B \<le> d k)) \<or>
      (\<exists>r<n. a = int r \<and> md = d r \<and> d r < B \<and> (\<forall>k<n. d r \<le> d k) \<and> (\<forall>k<r. d r < d k)))"
proof (induction n)
  case 0
  then show ?case by simp
next
  case (Suc n)
  then obtain md a where st: "fold (scanStep d) [0..<n] (B, - 1) = (md, a)"
    and inv: "(a = - 1 \<and> md = B \<and> (\<forall>k<n. B \<le> d k)) \<or>
      (\<exists>r<n. a = int r \<and> md = d r \<and> d r < B \<and> (\<forall>k<n. d r \<le> d k) \<and> (\<forall>k<r. d r < d k))"
    by blast
  show ?case
  proof (cases "d n < md")
    case True
    have "fold (scanStep d) [0..<Suc n] (B, - 1) = (d n, int n)"
      using True by (simp add: st scanStep_def)
    moreover have "d n < B \<and> (\<forall>k<Suc n. d n \<le> d k) \<and> (\<forall>k<n. d n < d k)"
      using inv True by (fastforce simp: less_Suc_eq)
    ultimately show ?thesis by auto
  next
    case False
    have "fold (scanStep d) [0..<Suc n] (B, - 1) = (md, a)"
      using False by (simp add: st scanStep_def)
    moreover have "(a = - 1 \<and> md = B \<and> (\<forall>k<Suc n. B \<le> d k)) \<or>
      (\<exists>r<Suc n. a = int r \<and> md = d r \<and> d r < B \<and> (\<forall>k<Suc n. d r \<le> d k) \<and> (\<forall>k<r. d r < d k))"
      using inv False by (fastforce simp: less_Suc_eq)
    ultimately show ?thesis by blast
  qed
qed

lemma nearest_far:
  assumes "\<forall>k<nat (K_C args). 10 ^ 30 \<le> pointDist args m k"
  shows "nearest args m = - 1"
proof -
  obtain md a where st: "fold (scanStep (pointDist args m)) [0..<nat (K_C args)] (10 ^ 30, - 1) = (md, a)"
    and inv: "(a = - 1 \<and> md = 10 ^ 30 \<and> (\<forall>k<nat (K_C args). 10 ^ 30 \<le> pointDist args m k)) \<or>
      (\<exists>r<nat (K_C args). a = int r \<and> md = pointDist args m r \<and> pointDist args m r < 10 ^ 30 \<and>
         (\<forall>k<nat (K_C args). pointDist args m r \<le> pointDist args m k) \<and> (\<forall>k<r. pointDist args m r < pointDist args m k))"
    using scan_invariant [of "pointDist args m" "nat (K_C args)" "10 ^ 30"] by blast
  from inv assms have "a = - 1"
    by (metis not_le)
  then show ?thesis
    using st by (simp add: nearest_def)
qed

lemma nearest_near:
  assumes "k0 < nat (K_C args)" "pointDist args m k0 < 10 ^ 30"
  shows "\<exists>r<nat (K_C args). nearest args m = int r \<and> pointDist args m r < 10 ^ 30 \<and>
         (\<forall>k<nat (K_C args). pointDist args m r \<le> pointDist args m k) \<and>
         (\<forall>k<r. pointDist args m r < pointDist args m k)"
proof -
  obtain md a where st: "fold (scanStep (pointDist args m)) [0..<nat (K_C args)] (10 ^ 30, - 1) = (md, a)"
    and inv: "(a = - 1 \<and> md = 10 ^ 30 \<and> (\<forall>k<nat (K_C args). 10 ^ 30 \<le> pointDist args m k)) \<or>
      (\<exists>r<nat (K_C args). a = int r \<and> md = pointDist args m r \<and> pointDist args m r < 10 ^ 30 \<and>
         (\<forall>k<nat (K_C args). pointDist args m r \<le> pointDist args m k) \<and> (\<forall>k<r. pointDist args m r < pointDist args m k))"
    using scan_invariant [of "pointDist args m" "nat (K_C args)" "10 ^ 30"] by blast
  from inv assms have "\<not> (\<forall>k<nat (K_C args). 10 ^ 30 \<le> pointDist args m k)"
    by (meson not_le)
  with inv st show ?thesis
    by (auto simp: nearest_def)
qed

section \<open>Lowest index of the least distance\<close>

text \<open>
  Claim C7 says that for every point \<open>m\<close> of the worker's range and \<open>K \<ge> 1\<close> the kernel
  records the smallest index \<open>k\<close> whose distance to the point is the least of all \<open>K\<close>.
  A single point \<open>0\<close> and a single centroid \<open>3e30\<close>: index 0 is the only candidate, and
  the kernel leaves \<open>-1\<close>, because the distance is not below the starting value
  \<^verbatim>\<open>1e30\<close> of \<^verbatim>\<open>minDist\<close>.
\<close>

theorem workerThreadStart_lowest_index_counterexample:
  "workerThreadStart
     \<lparr>start_C = 0, end_C = 1, data_C = [0], clusterCentroids_C = [3 * 10 ^ 30],
      clusterAssignments_C = [0], currCost_C = [0], M_C = 1, N_C = 1, K_C = 1,
      threadId_C = 0, numThreads_C = 1\<rparr>
   = Inr \<lparr>start_C = 0, end_C = 1, data_C = [0], clusterCentroids_C = [3 * 10 ^ 30],
      clusterAssignments_C = [- 1], currCost_C = [0], M_C = 1, N_C = 1, K_C = 1,
      threadId_C = 0, numThreads_C = 1\<rparr>"
  by (simp add: workerThreadStart_def kernelInit_def kernelStep_def Let_def)

text \<open>
  Claim C7, amended. For a point \<open>m\<close> of the range: when some centroid is at a distance
  below \<^verbatim>\<open>1e30\<close>, the entry is the index \<open>r\<close> whose distance is the least of all \<open>K\<close>
  and strictly less than the distance of every earlier centroid (the lowest index wins a
  tie); when no centroid is, the entry is \<open>-1\<close>.
\<close>

theorem workerThreadStart_lowest_index:
  assumes "0 \<le> start_C args"
    and "end_C args \<le> int (length (clusterAssignments_C args))"
    and "start_C args \<le> int m" and "int m < end_C args"
  shows "\<exists>a. workerThreadStart args = Inr a \<and>
     (if \<forall>k<nat (K_C args). 10 ^ 30 \<le> pointDist args (int m) k
      then clusterAssignments_C a ! m = - 1
      else \<exists>r<nat (K_C args).
             clusterAssignments_C a ! m = int r \<and>
             (\<forall>k<nat (K_C args). pointDist args (int m) r \<le> pointDist args (int m) k) \<and>
             (\<forall>k<r. pointDist args (int m) r < pointDist args (int m) k))"
proof -
  have m: "m < length (clusterAssignments_C args)"
    using assms by simp
  have "\<exists>asg'. workerThreadStart args = Inr (args\<lparr>clusterAssignments_C := asg'\<rparr>) \<and>
    length asg' = length (clusterAssignments_C args) \<and>
    (\<forall>j<length (clusterAssignments_C args).
       asg' ! j = (if start_C args \<le> int j \<and> int j < end_C args then nearest args (int j)
                   else clusterAssignments_C args ! j))"
    using assms by (intro workerThreadStart_asg) simp_all
  then obtain asg' where r: "workerThreadStart args = Inr (args\<lparr>clusterAssignments_C := asg'\<rparr>)"
    and entry: "asg' ! m = nearest args (int m)"
    using assms m by auto
  have "if \<forall>k<nat (K_C args). 10 ^ 30 \<le> pointDist args (int m) k
      then asg' ! m = - 1
      else \<exists>r<nat (K_C args).
             asg' ! m = int r \<and>
             (\<forall>k<nat (K_C args). pointDist args (int m) r \<le> pointDist args (int m) k) \<and>
             (\<forall>k<r. pointDist args (int m) r < pointDist args (int m) k)"
  proof (cases "\<forall>k<nat (K_C args). 10 ^ 30 \<le> pointDist args (int m) k")
    case True
    then show ?thesis
      using nearest_far [of args "int m"] by (simp add: entry)
  next
    case False
    then obtain k0 where "k0 < nat (K_C args)" "pointDist args (int m) k0 < 10 ^ 30"
      by (auto simp: not_le)
    from nearest_near [OF this] False show ?thesis
      unfolding entry by (simp only: if_False) blast
  qed
  with r show ?thesis
    by simp
qed

text \<open>
  Points \<open>0\<close> and \<open>5\<close>, centroids \<open>9, 3, 7\<close>: the point \<open>5\<close> is at distance 2 from the
  centroids 1 and 2, and gets index 1.
\<close>

theorem workerThreadStart_lowest_index_witness:
  "workerThreadStart
     \<lparr>start_C = 0, end_C = 2, data_C = [0, 5], clusterCentroids_C = [9, 3, 7],
      clusterAssignments_C = [0, 0], currCost_C = [0, 0, 0], M_C = 2, N_C = 1, K_C = 3,
      threadId_C = 0, numThreads_C = 1\<rparr>
   = Inr \<lparr>start_C = 0, end_C = 2, data_C = [0, 5], clusterCentroids_C = [9, 3, 7],
      clusterAssignments_C = [1, 1], currCost_C = [0, 0, 0], M_C = 2, N_C = 1, K_C = 3,
      threadId_C = 0, numThreads_C = 1\<rparr> \<and>
   pointDist \<lparr>start_C = 0, end_C = 2, data_C = [0, 5], clusterCentroids_C = [9, 3, 7],
      clusterAssignments_C = [0, 0], currCost_C = [0, 0, 0], M_C = 2, N_C = 1, K_C = 3,
      threadId_C = 0, numThreads_C = 1\<rparr> 1 1 = 2 \<and>
   pointDist \<lparr>start_C = 0, end_C = 2, data_C = [0, 5], clusterCentroids_C = [9, 3, 7],
      clusterAssignments_C = [0, 0], currCost_C = [0, 0, 0], M_C = 2, N_C = 1, K_C = 3,
      threadId_C = 0, numThreads_C = 1\<rparr> 1 2 = 2 \<and>
   pointDist \<lparr>start_C = 0, end_C = 2, data_C = [0, 5], clusterCentroids_C = [9, 3, 7],
      clusterAssignments_C = [0, 0], currCost_C = [0, 0, 0], M_C = 2, N_C = 1, K_C = 3,
      threadId_C = 0, numThreads_C = 1\<rparr> 1 0 = 4"
  using workerThreadStart_lowest_index
    [of "\<lparr>start_C = 0, end_C = 2, data_C = [0, 5], clusterCentroids_C = [9, 3, 7],
      clusterAssignments_C = [0, 0], currCost_C = [0, 0, 0], M_C = 2, N_C = 1, K_C = 3,
      threadId_C = 0, numThreads_C = 1\<rparr>" 1]
  by (simp add: workerThreadStart_def kernelInit_def kernelStep_def pointDist_def Let_def
      eval_nat_numeral)

section \<open>The sentinel and the index \<open>-1\<close>\<close>

lemma computeCentroids_first_entry:
  assumes "0 < M_C args" and "0 \<le> K_C args"
    and "\<not> (0 \<le> clusterAssignments_C args ! 0 \<and> clusterAssignments_C args ! 0 < K_C args)"
  shows "computeCentroids args = Inl (ClusterIndexOutOfRange (clusterAssignments_C args ! 0))"
proof -
  have upt: "[0..<nat (M_C args)] = 0 # [Suc 0..<nat (M_C args)]"
    using assms(1) by (simp add: upt_conv_Cons)
  obtain counts cents where st:
    "fold (zeroCentroids args) [0..<nat (K_C args)]
       (replicate (nat (K_C args)) 0, clusterCentroids_C args) = (counts, cents)"
    by (cases "fold (zeroCentroids args) [0..<nat (K_C args)]
       (replicate (nat (K_C args)) 0, clusterCentroids_C args)")
  show ?thesis
    using assms(2,3) by (auto simp: computeCentroids_def Let_def st upt)
qed

text \<open>
  Claim C9. The starting value of \<^verbatim>\<open>minDist\<close> is the finite \<^verbatim>\<open>1e30\<close> and the test is
  \<^verbatim>\<open>d < minDist[i]\<close>. When every distance between a point and a centroid is at least
  \<^verbatim>\<open>1e30\<close> (with \<open>K \<ge> 1\<close> and \<open>M \<ge> 1\<close>), the kernel run on the whole range \<open>[0, M)\<close>
  leaves every entry at \<open>-1\<close>, and \<open>computeCentroids\<close> on that vector subscripts
  \<^verbatim>\<open>counts\<close> and \<^verbatim>\<open>clusterCentroids\<close> with \<open>k = -1\<close>.
\<close>

theorem sentinel_leaves_minus_one:
  assumes "start_C args = 0" and "end_C args = M_C args"
    and "M_C args = int (length (clusterAssignments_C args))"
    and "0 < M_C args" and "0 < K_C args"
    and "\<forall>m<nat (M_C args). \<forall>k<nat (K_C args). 10 ^ 30 \<le> pointDist args (int m) k"
  shows "\<exists>a. workerThreadStart args = Inr a \<and>
           clusterAssignments_C a = replicate (nat (M_C args)) (- 1) \<and>
           computeCentroids a = Inl (ClusterIndexOutOfRange (- 1))"
proof -
  have "\<exists>asg'. workerThreadStart args = Inr (args\<lparr>clusterAssignments_C := asg'\<rparr>) \<and>
    length asg' = length (clusterAssignments_C args) \<and>
    (\<forall>j<length (clusterAssignments_C args).
       asg' ! j = (if start_C args \<le> int j \<and> int j < end_C args then nearest args (int j)
                   else clusterAssignments_C args ! j))"
    using assms(1-4) by (intro workerThreadStart_asg) simp_all
  then obtain asg' where r: "workerThreadStart args = Inr (args\<lparr>clusterAssignments_C := asg'\<rparr>)"
    and len: "length asg' = length (clusterAssignments_C args)"
    and entry: "\<And>j. j < length (clusterAssignments_C args) \<Longrightarrow>
           asg' ! j = (if start_C args \<le> int j \<and> int j < end_C args then nearest args (int j)
                       else clusterAssignments_C args ! j)"
    by blast
  have nth: "asg' ! j = - 1" if "j < nat (M_C args)" for j
  proof -
    have "asg' ! j = nearest args (int j)"
      using assms(1-4) that entry [of j] by simp
    also have "\<dots> = - 1"
      using assms that by (intro nearest_far) simp
    finally show ?thesis .
  qed
  have eq: "asg' = replicate (nat (M_C args)) (- 1)"
    using assms(3) by (intro nth_equalityI) (simp_all add: len nth)
  have "asg' ! 0 = - 1"
    using assms by (intro nth) simp
  then have "computeCentroids (args\<lparr>clusterAssignments_C := asg'\<rparr>) =
      Inl (ClusterIndexOutOfRange (- 1))"
    using assms computeCentroids_first_entry [of "args\<lparr>clusterAssignments_C := asg'\<rparr>"]
    by simp
  with eq r show ?thesis
    by simp
qed

text \<open>One point \<open>0\<close>, one centroid \<open>2e30\<close>, one dimension.\<close>

theorem sentinel_leaves_minus_one_witness:
  "pointDist \<lparr>start_C = 0, end_C = 1, data_C = [0], clusterCentroids_C = [2 * 10 ^ 30],
      clusterAssignments_C = [0], currCost_C = [0], M_C = 1, N_C = 1, K_C = 1,
      threadId_C = 0, numThreads_C = 1\<rparr> 0 0 = 2 * 10 ^ 30 \<and>
   workerThreadStart
     \<lparr>start_C = 0, end_C = 1, data_C = [0], clusterCentroids_C = [2 * 10 ^ 30],
      clusterAssignments_C = [0], currCost_C = [0], M_C = 1, N_C = 1, K_C = 1,
      threadId_C = 0, numThreads_C = 1\<rparr>
   = Inr \<lparr>start_C = 0, end_C = 1, data_C = [0], clusterCentroids_C = [2 * 10 ^ 30],
      clusterAssignments_C = [- 1], currCost_C = [0], M_C = 1, N_C = 1, K_C = 1,
      threadId_C = 0, numThreads_C = 1\<rparr> \<and>
   computeCentroids
     \<lparr>start_C = 0, end_C = 1, data_C = [0], clusterCentroids_C = [2 * 10 ^ 30],
      clusterAssignments_C = [- 1], currCost_C = [0], M_C = 1, N_C = 1, K_C = 1,
      threadId_C = 0, numThreads_C = 1\<rparr> = Inl (ClusterIndexOutOfRange (- 1))"
  using sentinel_leaves_minus_one
    [of "\<lparr>start_C = 0, end_C = 1, data_C = [0], clusterCentroids_C = [2 * 10 ^ 30],
      clusterAssignments_C = [0], currCost_C = [0], M_C = 1, N_C = 1, K_C = 1,
      threadId_C = 0, numThreads_C = 1\<rparr>"]
  by (simp add: pointDist_def workerThreadStart_def kernelInit_def kernelStep_def Let_def
      computeCentroids_def zeroCentroids_def)

section \<open>The dispatcher, entry by entry\<close>

text \<open>
  The result of running a list of workers one after the other depends only on the set of
  their ranges: an entry inside some range is the nearest centroid of its point, any
  other entry is untouched. In particular it does not depend on the order of the workers.
\<close>

lemma runWorkers_asg:
  assumes "\<forall>w\<in>set ws. 0 \<le> start_C w \<and> start_C w \<le> end_C w \<and>
             end_C w \<le> int (length asg) \<and> nearest w = nearest args"
  shows "\<exists>asg'. runWorkers ws asg = Inr asg' \<and> length asg' = length asg \<and>
         (\<forall>j<length asg. asg' ! j =
           (if \<exists>w\<in>set ws. start_C w \<le> int j \<and> int j < end_C w then nearest args (int j)
            else asg ! j))"
  using assms
proof (induction ws arbitrary: asg)
  case Nil
  then show ?case by simp
next
  case (Cons w ws)
  let ?w = "w\<lparr>clusterAssignments_C := asg\<rparr>"
  have w: "0 \<le> start_C w" "start_C w \<le> end_C w" "end_C w \<le> int (length asg)"
    "nearest w = nearest args"
    using Cons.prems by auto
  have n: "nearest ?w = nearest args"
    using w(4) nearest_cong [of ?w w] by simp
  have "\<exists>a1. workerThreadStart ?w = Inr (?w\<lparr>clusterAssignments_C := a1\<rparr>) \<and>
    length a1 = length (clusterAssignments_C ?w) \<and>
    (\<forall>j<length (clusterAssignments_C ?w).
       a1 ! j = (if start_C ?w \<le> int j \<and> int j < end_C ?w then nearest ?w (int j)
                 else clusterAssignments_C ?w ! j))"
    using w(1-3) by (intro workerThreadStart_asg) simp_all
  then obtain a1 where a1: "workerThreadStart ?w = Inr (?w\<lparr>clusterAssignments_C := a1\<rparr>)"
    "length a1 = length asg"
    "\<And>j. j < length asg \<Longrightarrow>
       a1 ! j = (if start_C w \<le> int j \<and> int j < end_C w then nearest args (int j) else asg ! j)"
    by (auto simp: n)
  have "\<exists>asg'. runWorkers ws a1 = Inr asg' \<and> length asg' = length a1 \<and>
         (\<forall>j<length a1. asg' ! j =
           (if \<exists>w\<in>set ws. start_C w \<le> int j \<and> int j < end_C w then nearest args (int j)
            else a1 ! j))"
    using Cons.prems by (intro Cons.IH) (simp add: a1(2))
  then obtain asg' where r: "runWorkers ws a1 = Inr asg'" "length asg' = length a1"
    "\<forall>j<length a1. asg' ! j =
           (if \<exists>w\<in>set ws. start_C w \<le> int j \<and> int j < end_C w then nearest args (int j)
            else a1 ! j)"
    by blast
  have "runWorkers (w # ws) asg = Inr asg'"
    by (simp add: a1(1) r(1))
  moreover have "length asg' = length asg"
    by (simp add: r(2) a1(2))
  moreover have "asg' ! j =
           (if \<exists>w\<in>set (w # ws). start_C w \<le> int j \<and> int j < end_C w then nearest args (int j)
            else asg ! j)" if "j < length asg" for j
    using r(3) a1(2) a1(3) [OF that] that by auto
  ultimately show ?case
    by blast
qed

lemma runWorkers_order:
  assumes "\<forall>w\<in>set ws. 0 \<le> start_C w \<and> start_C w \<le> end_C w \<and>
             end_C w \<le> int (length asg) \<and> nearest w = nearest args"
    and "set ws' = set ws"
  shows "runWorkers ws' asg = runWorkers ws asg"
proof -
  have ws': "\<forall>w\<in>set ws'. 0 \<le> start_C w \<and> start_C w \<le> end_C w \<and>
             end_C w \<le> int (length asg) \<and> nearest w = nearest args"
    using assms by simp
  obtain a where a: "runWorkers ws asg = Inr a" "length a = length asg"
    "\<forall>j<length asg. a ! j =
           (if \<exists>w\<in>set ws. start_C w \<le> int j \<and> int j < end_C w then nearest args (int j)
            else asg ! j)"
    using runWorkers_asg [OF assms(1)] by blast
  obtain a' where a': "runWorkers ws' asg = Inr a'" "length a' = length asg"
    "\<forall>j<length asg. a' ! j =
           (if \<exists>w\<in>set ws'. start_C w \<le> int j \<and> int j < end_C w then nearest args (int j)
            else asg ! j)"
    using runWorkers_asg [OF ws'] by blast
  have "a' = a"
    using a a' assms(2) by (intro nth_equalityI) simp_all
  then show ?thesis
    by (simp add: a a')
qed

text \<open>The ranges of two different workers do not overlap.\<close>

lemma args_arr_disjoint:
  assumes "0 \<le> M_C args" "0 < T" "i < i'" "i' < nat T"
  shows "end_C (args_arr args T ! i) \<le> start_C (args_arr args T ! i')"
proof -
  have p0: "0 \<le> M_C args sdiv T"
    using assms by (simp add: signed_divide_int_def sgn_if pos_imp_zdiv_nonneg_iff)
  have "int i + 1 \<le> int i'"
    using assms by simp
  then have "(M_C args sdiv T) * (int i + 1) \<le> (M_C args sdiv T) * int i'"
    using p0 by (rule mult_left_mono)
  then show ?thesis
    using assms by (simp add: args_arr_def Let_def)
qed

lemma args_arr_nearest:
  "w \<in> set (args_arr args T) \<Longrightarrow> nearest w = nearest args"
  by (auto simp: args_arr_def Let_def intro!: nearest_cong)

text \<open>For \<open>M \<ge> 0\<close> and \<open>T \<ge> 1\<close> the ranges cover exactly \<open>[0, (M div T) * T)\<close>.\<close>

lemma args_arr_covered:
  assumes "0 \<le> M_C args" "0 < T"
  shows "(\<exists>w\<in>set (args_arr args T). start_C w \<le> int j \<and> int j < end_C w) \<longleftrightarrow>
         int j < (M_C args div T) * T"
proof -
  define p where "p = M_C args div T"
  have p0: "0 \<le> p"
    using assms by (simp add: p_def pos_imp_zdiv_nonneg_iff)
  have sd: "M_C args sdiv T = p"
    using assms by (simp add: p_def signed_divide_int_def sgn_if)
  have pT: "p * T \<le> M_C args"
  proof -
    have "T * (M_C args div T) + M_C args mod T = M_C args"
      by (rule mult_div_mod_eq)
    moreover have "0 \<le> M_C args mod T"
      using assms by simp
    ultimately have "T * (M_C args div T) \<le> M_C args"
      by linarith
    then show ?thesis
      by (simp add: p_def mult.commute)
  qed
  have set_eq: "set (args_arr args T) = (\<lambda>i. args\<lparr>threadId_C := int i, numThreads_C := T,
                       start_C := p * int i,
                       end_C := min (p * (int i + 1)) (M_C args)\<rparr>) ` {0..<nat T}"
    by (simp add: args_arr_def sd Let_def)
  have le: "p * (int i + 1) \<le> M_C args" if "i < nat T" for i
  proof -
    have "int i + 1 \<le> T" using that by simp
    then have "p * (int i + 1) \<le> p * T"
      using p0 by (intro mult_left_mono) simp_all
    with pT show ?thesis by simp
  qed
  show ?thesis
  proof
    assume "\<exists>w\<in>set (args_arr args T). start_C w \<le> int j \<and> int j < end_C w"
    then obtain i where i: "i < nat T" "p * int i \<le> int j" "int j < min (p * (int i + 1)) (M_C args)"
      by (auto simp: set_eq)
    have "int i + 1 \<le> T" using i by simp
    then have "p * (int i + 1) \<le> p * T"
      using p0 by (intro mult_left_mono) simp_all
    with i show "int j < (M_C args div T) * T"
      by (simp add: p_def)
  next
    assume j: "int j < (M_C args div T) * T"
    then have ppos: "0 < p"
      using p0 assms by (cases "p = 0") (auto simp: p_def)
    define i where "i = nat (int j div p)"
    have idiv: "int i = int j div p"
      using ppos by (simp add: i_def pos_imp_zdiv_nonneg_iff)
    have "p * (int j div p) + int j mod p = int j"
      by (rule mult_div_mod_eq)
    then have dm: "p * int i + int j mod p = int j" "0 \<le> int j mod p" "int j mod p < p"
      using ppos by (simp_all only: idiv pos_mod_sign pos_mod_bound)
    have lo: "p * int i \<le> int j"
      using dm by linarith
    have hi: "int j < p * (int i + 1)"
      using dm by (simp add: distrib_left)
    have iT: "i < nat T"
    proof (rule ccontr)
      assume "\<not> i < nat T"
      then have "T \<le> int i" by simp
      then have "p * T \<le> p * int i"
        using p0 by (intro mult_left_mono) simp_all
      with lo j show False
        by (simp add: p_def)
    qed
    have "int j < min (p * (int i + 1)) (M_C args)"
      using hi le [OF iT] by simp
    with lo iT show "\<exists>w\<in>set (args_arr args T). start_C w \<le> int j \<and> int j < end_C w"
      by (auto simp: set_eq intro!: bexI [of _ i])
  qed
qed

lemma args_arr_ranges:
  assumes "0 \<le> M_C args" "0 < T" "w \<in> set (args_arr args T)"
  shows "0 \<le> start_C w \<and> start_C w \<le> end_C w \<and> end_C w \<le> M_C args"
proof -
  define p where "p = M_C args sdiv T"
  have pd: "p = M_C args div T"
    using assms by (simp add: p_def signed_divide_int_def sgn_if)
  have p0: "0 \<le> p"
    using assms by (simp add: pd pos_imp_zdiv_nonneg_iff)
  have pT: "p * T \<le> M_C args"
  proof -
    have "T * (M_C args div T) + M_C args mod T = M_C args"
      by (rule mult_div_mod_eq)
    moreover have "0 \<le> M_C args mod T"
      using assms by simp
    ultimately have "T * (M_C args div T) \<le> M_C args"
      by linarith
    then show ?thesis
      by (simp add: pd mult.commute)
  qed
  from assms(3) obtain i where i: "i < nat T"
    and w: "w = args\<lparr>threadId_C := int i, numThreads_C := T, start_C := p * int i,
                    end_C := min (p * (int i + 1)) (M_C args)\<rparr>"
    by (auto simp: args_arr_def Let_def p_def)
  have "int i + 1 \<le> T"
    using i by simp
  then have "p * (int i + 1) \<le> p * T"
    using p0 by (rule mult_left_mono)
  moreover have "p * int i \<le> p * (int i + 1)"
    using p0 by (intro mult_left_mono) simp_all
  ultimately show ?thesis
    using p0 pT by (simp add: w)
qed

lemma computeAssignments_asg:
  assumes T: "0 < T" and M: "M_C args = int (length (clusterAssignments_C args))"
  shows "\<exists>asg'. computeAssignments args T = Inr (args\<lparr>clusterAssignments_C := asg'\<rparr>) \<and>
           length asg' = length (clusterAssignments_C args) \<and>
           (\<forall>j<length (clusterAssignments_C args). asg' ! j =
              (if int j < (M_C args div T) * T then nearest args (int j)
               else clusterAssignments_C args ! j))"
proof -
  let ?asg = "clusterAssignments_C args"
  have M0: "0 \<le> M_C args"
    by (simp add: M)
  have ws: "\<forall>w\<in>set (args_arr args T).
      0 \<le> start_C w \<and> start_C w \<le> end_C w \<and> end_C w \<le> int (length ?asg) \<and>
      nearest w = nearest args"
    using args_arr_ranges [OF M0 T] args_arr_nearest [of _ args T] by (simp add: M)
  obtain asg' where r: "runWorkers (args_arr args T) ?asg = Inr asg'"
    "length asg' = length ?asg"
    "\<forall>j<length ?asg. asg' ! j =
       (if \<exists>w\<in>set (args_arr args T). start_C w \<le> int j \<and> int j < end_C w
        then nearest args (int j) else ?asg ! j)"
    using runWorkers_asg [OF ws] by blast
  have "computeAssignments args T = Inr (args\<lparr>clusterAssignments_C := asg'\<rparr>)"
    using T by (simp add: computeAssignments_def r(1))
  moreover have "\<forall>j<length ?asg. asg' ! j =
        (if int j < (M_C args div T) * T then nearest args (int j) else ?asg ! j)"
    using r(3) args_arr_covered [OF M0 T] by simp
  ultimately show ?thesis
    using r(2) by blast
qed

text \<open>A worker with an empty range leaves the assignment vector alone.\<close>

lemma workerThreadStart_empty: "end_C w = start_C w \<Longrightarrow> workerThreadStart w = Inr w"
  by (simp add: workerThreadStart_def Let_def)

lemma runWorkers_empty:
  "\<forall>w\<in>set ws. end_C w = start_C w \<Longrightarrow> runWorkers ws asg = Inr asg"
  by (induction ws arbitrary: asg) (simp_all add: workerThreadStart_empty)

section \<open>The result depends on the number of workers\<close>

text \<open>
  Claim C2 says that a run with 1 worker and a run with 16 workers end with the same
  assignment vector and the same centroids. On the four points \<open>0, 1, 10, 11\<close> of a line,
  with the centroids seeded at \<open>0.5\<close> and \<open>10.5\<close>, \<open>epsilon = 1e-6\<close> and an assignment
  vector that holds zeros at the call, the run with one worker ends with the assignments
  \<open>0, 0, 1, 1\<close> and the centroids \<open>0.5, 10.5\<close>; the run with the driver's 16 workers
  hands every worker the empty range \<open>[0, 0)\<close>, never writes the assignment vector and
  ends with the centroids \<open>5.5, 0\<close>.
\<close>

theorem worker_count_changes_result:
  "kMeansThreadWith 1 [0, 1, 10, 11] [1 / 2, 21 / 2] [0, 0, 0, 0] 4 1 2 (1 / 10 ^ 6)
     = Some (Inr ([1 / 2, 21 / 2], [0, 0, 1, 1])) \<and>
   kMeansThread [0, 1, 10, 11] [1 / 2, 21 / 2] [0, 0, 0, 0] 4 1 2 (1 / 10 ^ 6)
     = Some (Inr ([11 / 2, 0], [0, 0, 0, 0]))"
proof
  show "kMeansThreadWith 1 [0, 1, 10, 11] [1 / 2, 21 / 2] [0, 0, 0, 0] 4 1 2 (1 / 10 ^ 6)
     = Some (Inr ([1 / 2, 21 / 2], [0, 0, 1, 1]))"
    apply (simp add: kMeansThreadWith_def Let_def eval_nat_numeral)
    apply (subst kMeansLoop.simps)
    apply (simp add: stoppingConditionMet_def kMeansIter_def computeAssignments_def args_arr_def
       workerThreadStart_def kernelInit_def kernelStep_def computeCentroids_def
       zeroCentroids_def computeMeans_def computeCost_def Let_def signed_divide_int_def
       eval_nat_numeral)
    apply (subst kMeansLoop.simps)
    apply (simp add: stoppingConditionMet_def kMeansIter_def computeAssignments_def args_arr_def
       workerThreadStart_def kernelInit_def kernelStep_def computeCentroids_def
       zeroCentroids_def computeMeans_def computeCost_def Let_def signed_divide_int_def
       eval_nat_numeral)
    apply (subst kMeansLoop.simps)
    apply (simp add: stoppingConditionMet_def eval_nat_numeral)
    done
  show "kMeansThread [0, 1, 10, 11] [1 / 2, 21 / 2] [0, 0, 0, 0] 4 1 2 (1 / 10 ^ 6)
     = Some (Inr ([11 / 2, 0], [0, 0, 0, 0]))"
    apply (simp add: kMeansThread_def kMeansThreadWith_def Let_def eval_nat_numeral)
    apply (subst kMeansLoop.simps)
    apply (simp add: stoppingConditionMet_def kMeansIter_def Let_def eval_nat_numeral)
    apply (simp add: computeAssignments_def args_arr_def signed_divide_int_def eval_nat_numeral
       workerThreadStart_empty)
    apply (simp add: computeCentroids_def zeroCentroids_def computeMeans_def computeCost_def
       Let_def eval_nat_numeral)
    apply (subst kMeansLoop.simps)
    apply (simp add: stoppingConditionMet_def kMeansIter_def Let_def eval_nat_numeral)
    apply (simp add: computeAssignments_def args_arr_def signed_divide_int_def eval_nat_numeral
       workerThreadStart_empty)
    apply (simp add: computeCentroids_def zeroCentroids_def computeMeans_def computeCost_def
       Let_def eval_nat_numeral)
    apply (subst kMeansLoop.simps)
    apply (simp add: stoppingConditionMet_def eval_nat_numeral)
    done
qed

section \<open>The convergence test\<close>

lemma stoppingScan_iff:
  "stoppingScan prevCost currCost epsilon ks \<longleftrightarrow>
     (\<forall>k\<in>set ks. \<bar>prevCost ! k - currCost ! k\<bar> \<le> epsilon)"
  by (induction ks) (auto simp: not_less)

lemma stoppingConditionMet_iff:
  "stoppingConditionMet prevCost currCost epsilon K \<longleftrightarrow>
     (\<forall>k<nat K. \<bar>prevCost ! k - currCost ! k\<bar> \<le> epsilon)"
  by (auto simp: stoppingConditionMet_def stoppingScan_iff)

lemma copy_loop:
  assumes "length p = n" "length c = n"
  shows "fold (\<lambda>k p. p[k := c ! k]) [0..<n] p = c"
proof (rule nth_equalityI)
  show "length (fold (\<lambda>k p. p[k := c ! k]) [0..<n] p) = length c"
    using assms by simp
  fix i assume "i < length (fold (\<lambda>k p. p[k := c ! k]) [0..<n] p)"
  then have i: "i < n" using assms by simp
  show "fold (\<lambda>k p. p[k := c ! k]) [0..<n] p ! i = c ! i"
    using fold_upd_nth_hit [of i "[0..<n]" "\<lambda>k. k" p "\<lambda>k. c ! k"] i assms by simp
qed

lemma computeCentroids_frame:
  "computeCentroids args = Inr a \<Longrightarrow> a = args\<lparr>clusterCentroids_C := clusterCentroids_C a\<rparr>"
  by (auto simp: computeCentroids_def Let_def split: if_splits sum.splits)

lemma computeCost_frame:
  "computeCost args = Inr a \<Longrightarrow> a = args\<lparr>currCost_C := currCost_C a\<rparr>"
  by (auto simp: computeCost_def Let_def split: if_splits sum.splits)

lemma computeAssignments_frame:
  "computeAssignments args T = Inr a \<Longrightarrow> a = args\<lparr>clusterAssignments_C := clusterAssignments_C a\<rparr>"
  by (auto simp: computeAssignments_def split: if_splits sum.splits)

lemma kMeansIter_Inr:
  assumes "kMeansIter T (prevCost, args) = Inr (prevCost', args')"
  obtains a1 a2 where "computeAssignments args T = Inr a1" "computeCentroids a1 = Inr a2"
    "computeCost a2 = Inr args'"
    "prevCost' = fold (\<lambda>k p. p[k := currCost_C args ! k]) [0..<nat (K_C args)] prevCost"
  using assms by (auto simp: kMeansIter_def Let_def split: sum.splits)

lemma kMeansIter_K:
  assumes "kMeansIter T (prevCost, args) = Inr (prevCost', args')"
  shows "K_C args' = K_C args" "M_C args' = M_C args" "N_C args' = N_C args"
    "data_C args' = data_C args"
proof -
  from assms obtain a1 a2 where a: "computeAssignments args T = Inr a1"
    "computeCentroids a1 = Inr a2" "computeCost a2 = Inr args'"
    by (rule kMeansIter_Inr)
  have "K_C args' = K_C a2 \<and> M_C args' = M_C a2 \<and> N_C args' = N_C a2 \<and> data_C args' = data_C a2"
    using computeCost_frame [OF a(3)] by (metis WorkerArgs.select_convs WorkerArgs.surjective WorkerArgs.update_convs(6))
  moreover have "K_C a2 = K_C a1 \<and> M_C a2 = M_C a1 \<and> N_C a2 = N_C a1 \<and> data_C a2 = data_C a1"
    using computeCentroids_frame [OF a(2)] by (metis WorkerArgs.select_convs WorkerArgs.surjective WorkerArgs.update_convs(4))
  moreover have "K_C a1 = K_C args \<and> M_C a1 = M_C args \<and> N_C a1 = N_C args \<and> data_C a1 = data_C args"
    using computeAssignments_frame [OF a(1)] by (metis WorkerArgs.select_convs WorkerArgs.surjective WorkerArgs.update_convs(5))
  ultimately show "K_C args' = K_C args" "M_C args' = M_C args" "N_C args' = N_C args"
    "data_C args' = data_C args"
    by simp_all
qed

text \<open>
  Claim C5 says that the driver copies the current costs into the previous costs before an
  iteration and declares convergence after it if and only if every per-cluster cost
  changed by strictly less than \<open>epsilon\<close>. The comment on the parameter \<open>epsilon\<close> of
  \<^verbatim>\<open>kMeansThread\<close> says the same: converged when
  \<^verbatim>\<open>|currCost[i] - prevCost[i]| < epsilon\<close> for all \<open>i\<close>. The test of
  \<^verbatim>\<open>stoppingConditionMet\<close> is \<^verbatim>\<open>abs(prevCost[k] - currCost[k]) > epsilon\<close>, and a cost that
  changed by exactly \<open>epsilon\<close> counts as converged.

  Sixteen points on a line, \<open>0\<close>, \<open>45\<close> and fourteen times \<open>60\<close>, centroids seeded at
  \<open>0\<close> and \<open>100\<close>, \<open>epsilon = 45\<close>. The first pass puts the points \<open>0\<close> and \<open>45\<close>
  into cluster \<open>0\<close>, moves the centroids to \<open>22.5\<close> and \<open>60\<close> and takes the costs from
  \<open>[0, 0]\<close> to \<open>[45, 0]\<close>. The cost of cluster \<open>0\<close> changed by \<open>45\<close>, which is not
  less than \<open>epsilon\<close>; the test holds all the same and the call returns after this one
  pass. The passes that a strict test would still run move the point \<open>45\<close> to cluster
  \<open>1\<close> and the centroids to \<open>0\<close> and \<open>59\<close>: they are the passes of the same call with
  \<open>epsilon = 44\<close>, whose costs go \<open>[0, 0]\<close>, \<open>[45, 0]\<close>, \<open>[0, 28]\<close>, \<open>[0, 28]\<close>.
\<close>

theorem kMeansThread_converges_at_equality:
  "kMeansIter 16 ([10 ^ 30, 10 ^ 30],
      \<lparr>start_C = 0, end_C = 0,
       data_C = [0, 45, 60, 60, 60, 60, 60, 60, 60, 60, 60, 60, 60, 60, 60, 60],
       clusterCentroids_C = [0, 100],
       clusterAssignments_C = [0, 0, 0, 0, 0, 0, 0, 0, 0, 0, 0, 0, 0, 0, 0, 0],
       currCost_C = [0, 0], M_C = 16, N_C = 1, K_C = 2, threadId_C = 0, numThreads_C = 0\<rparr>)
   = Inr ([0, 0],
      \<lparr>start_C = 0, end_C = 0,
       data_C = [0, 45, 60, 60, 60, 60, 60, 60, 60, 60, 60, 60, 60, 60, 60, 60],
       clusterCentroids_C = [45 / 2, 60],
       clusterAssignments_C = [0, 0, 1, 1, 1, 1, 1, 1, 1, 1, 1, 1, 1, 1, 1, 1],
       currCost_C = [45, 0], M_C = 16, N_C = 1, K_C = 2, threadId_C = 0, numThreads_C = 0\<rparr>) \<and>
   \<not> \<bar>(0::real) - 45\<bar> < 45 \<and>
   stoppingConditionMet [0, 0] [45, 0] 45 2 \<and>
   kMeansThread [0, 45, 60, 60, 60, 60, 60, 60, 60, 60, 60, 60, 60, 60, 60, 60] [0, 100]
     [0, 0, 0, 0, 0, 0, 0, 0, 0, 0, 0, 0, 0, 0, 0, 0] 16 1 2 45
   = Some (Inr ([45 / 2, 60], [0, 0, 1, 1, 1, 1, 1, 1, 1, 1, 1, 1, 1, 1, 1, 1])) \<and>
   kMeansThread [0, 45, 60, 60, 60, 60, 60, 60, 60, 60, 60, 60, 60, 60, 60, 60] [0, 100]
     [0, 0, 0, 0, 0, 0, 0, 0, 0, 0, 0, 0, 0, 0, 0, 0] 16 1 2 44
   = Some (Inr ([0, 59], [0, 1, 1, 1, 1, 1, 1, 1, 1, 1, 1, 1, 1, 1, 1, 1]))"
proof (intro conjI)
  show "kMeansIter 16 ([10 ^ 30, 10 ^ 30],
      \<lparr>start_C = 0, end_C = 0,
       data_C = [0, 45, 60, 60, 60, 60, 60, 60, 60, 60, 60, 60, 60, 60, 60, 60],
       clusterCentroids_C = [0, 100],
       clusterAssignments_C = [0, 0, 0, 0, 0, 0, 0, 0, 0, 0, 0, 0, 0, 0, 0, 0],
       currCost_C = [0, 0], M_C = 16, N_C = 1, K_C = 2, threadId_C = 0, numThreads_C = 0\<rparr>)
   = Inr ([0, 0],
      \<lparr>start_C = 0, end_C = 0,
       data_C = [0, 45, 60, 60, 60, 60, 60, 60, 60, 60, 60, 60, 60, 60, 60, 60],
       clusterCentroids_C = [45 / 2, 60],
       clusterAssignments_C = [0, 0, 1, 1, 1, 1, 1, 1, 1, 1, 1, 1, 1, 1, 1, 1],
       currCost_C = [45, 0], M_C = 16, N_C = 1, K_C = 2, threadId_C = 0, numThreads_C = 0\<rparr>)"
    apply (simp add: kMeansIter_def Let_def eval_nat_numeral)
    apply (simp add: computeAssignments_def args_arr_def signed_divide_int_def eval_nat_numeral)
    apply (simp add: workerThreadStart_def kernelInit_def kernelStep_def Let_def
        eval_nat_numeral)
    apply (simp add: computeCentroids_def zeroCentroids_def computeMeans_def computeCost_def
        Let_def eval_nat_numeral)
    done
  show "\<not> \<bar>(0::real) - 45\<bar> < 45"
    by simp
  show "stoppingConditionMet [0, 0] [45, 0] 45 2"
    by (simp add: stoppingConditionMet_def eval_nat_numeral)
  show "kMeansThread [0, 45, 60, 60, 60, 60, 60, 60, 60, 60, 60, 60, 60, 60, 60, 60] [0, 100]
     [0, 0, 0, 0, 0, 0, 0, 0, 0, 0, 0, 0, 0, 0, 0, 0] 16 1 2 45
   = Some (Inr ([45 / 2, 60], [0, 0, 1, 1, 1, 1, 1, 1, 1, 1, 1, 1, 1, 1, 1, 1]))"
    apply (simp add: kMeansThread_def kMeansThreadWith_def Let_def eval_nat_numeral)
    apply (subst kMeansLoop.simps)
    apply (simp add: stoppingConditionMet_def kMeansIter_def Let_def eval_nat_numeral)
    apply (simp add: computeAssignments_def args_arr_def signed_divide_int_def eval_nat_numeral)
    apply (simp add: workerThreadStart_def kernelInit_def kernelStep_def Let_def
        eval_nat_numeral)
    apply (simp add: computeCentroids_def zeroCentroids_def computeMeans_def computeCost_def
        Let_def eval_nat_numeral)
    apply (subst kMeansLoop.simps)
    apply (simp add: stoppingConditionMet_def eval_nat_numeral)
    done
  show "kMeansThread [0, 45, 60, 60, 60, 60, 60, 60, 60, 60, 60, 60, 60, 60, 60, 60] [0, 100]
     [0, 0, 0, 0, 0, 0, 0, 0, 0, 0, 0, 0, 0, 0, 0, 0] 16 1 2 44
   = Some (Inr ([0, 59], [0, 1, 1, 1, 1, 1, 1, 1, 1, 1, 1, 1, 1, 1, 1, 1]))"
    apply (simp add: kMeansThread_def kMeansThreadWith_def Let_def eval_nat_numeral)
    apply (subst kMeansLoop.simps)
    apply (simp add: stoppingConditionMet_def kMeansIter_def Let_def eval_nat_numeral)
    apply (simp add: computeAssignments_def args_arr_def signed_divide_int_def eval_nat_numeral)
    apply (simp add: workerThreadStart_def kernelInit_def kernelStep_def Let_def
        eval_nat_numeral)
    apply (simp add: computeCentroids_def zeroCentroids_def computeMeans_def computeCost_def
        Let_def eval_nat_numeral)
    apply (subst kMeansLoop.simps)
    apply (simp add: stoppingConditionMet_def kMeansIter_def Let_def eval_nat_numeral)
    apply (simp add: computeAssignments_def args_arr_def signed_divide_int_def eval_nat_numeral)
    apply (simp add: workerThreadStart_def kernelInit_def kernelStep_def Let_def
        eval_nat_numeral)
    apply (simp add: computeCentroids_def zeroCentroids_def computeMeans_def computeCost_def
        Let_def eval_nat_numeral)
    apply (subst kMeansLoop.simps)
    apply (simp add: stoppingConditionMet_def kMeansIter_def Let_def eval_nat_numeral)
    apply (simp add: computeAssignments_def args_arr_def signed_divide_int_def eval_nat_numeral)
    apply (simp add: workerThreadStart_def kernelInit_def kernelStep_def Let_def
        eval_nat_numeral)
    apply (simp add: computeCentroids_def zeroCentroids_def computeMeans_def computeCost_def
        Let_def eval_nat_numeral)
    apply (subst kMeansLoop.simps)
    apply (simp add: stoppingConditionMet_def eval_nat_numeral)
    done
qed

section \<open>Blocks of the centroid array\<close>

text \<open>The subscript \<^verbatim>\<open>k * N + n\<close> of the source, for loop counters \<open>k\<close> and \<open>n < N\<close>.\<close>

lemma idx_nat [simp]:
  "n < nat N \<Longrightarrow> nat (int k * N + int n) = k * nat N + n"
  by (simp add: nat_add_distrib nat_mult_distrib)

lemma idx_int [simp]:
  "n < nat N \<Longrightarrow> 0 \<le> k \<Longrightarrow> nat (k * N + int n) = nat k * nat N + n"
  by (simp add: nat_add_distrib nat_mult_distrib)

lemma block_inj:
  fixes N :: nat
  assumes "k * N + n = k' * N + n'" "n < N" "n' < N"
  shows "k = k' \<and> n = n'"
proof -
  have a: "(k * N + n) div N = k" using assms(2) by simp
  have b: "(k' * N + n') div N = k'" using assms(3) by simp
  have "k = k'" using a b assms(1) by metis
  then show ?thesis using assms(1) by simp
qed

lemma block_bound:
  fixes N :: nat
  shows "k < K \<Longrightarrow> n < N \<Longrightarrow> k * N + n < K * N"
proof -
  assume a: "k < K" "n < N"
  then have "k * N + n < k * N + N" by simp
  also have "\<dots> = Suc k * N" by simp
  also have "\<dots> \<le> K * N" using a by (intro mult_le_mono1) simp
  finally show ?thesis .
qed

text \<open>A loop that rewrites the entries \<open>f n\<close> of an array from their current values.\<close>

lemma fold_mod_length [simp]:
  "length (fold (\<lambda>n c. c[f n := h (c ! f n) n]) ns c) = length c"
  by (induction ns arbitrary: c) auto

lemma fold_mod_other:
  "j \<notin> f ` set ns \<Longrightarrow> fold (\<lambda>n c. c[f n := h (c ! f n) n]) ns c ! j = c ! j"
  by (induction ns arbitrary: c) auto

lemma fold_mod_hit:
  "n \<in> set ns \<Longrightarrow> inj_on f (set ns) \<Longrightarrow> distinct ns \<Longrightarrow> f n < length c \<Longrightarrow>
   fold (\<lambda>n c. c[f n := h (c ! f n) n]) ns c ! f n = h (c ! f n) n"
proof (induction ns arbitrary: c)
  case Nil
  then show ?case by simp
next
  case (Cons a ns)
  show ?case
  proof (cases "n = a")
    case True
    have "f a \<notin> f ` set ns"
      using Cons.prems by (auto simp: inj_on_def)
    then show ?thesis
      using Cons.prems True by (simp add: fold_mod_other)
  next
    case False
    then have "f n \<noteq> f a"
      using Cons.prems by (auto simp: inj_on_def)
    then show ?thesis
      using Cons False by (auto simp: inj_on_def)
  qed
qed

text \<open>The inner loop over the dimensions \<open>n\<close> of block \<open>k\<close>.\<close>

lemma block_loop:
  fixes N :: nat
  assumes "length c = K * N" "k < K"
  shows "length (fold (\<lambda>n c. c[k * N + n := h (c ! (k * N + n)) n]) [0..<N] c) = K * N"
    and "k' < K \<Longrightarrow> n < N \<Longrightarrow>
         fold (\<lambda>n c. c[k * N + n := h (c ! (k * N + n)) n]) [0..<N] c ! (k' * N + n) =
           (if k' = k then h (c ! (k * N + n)) n else c ! (k' * N + n))"
proof -
  show "length (fold (\<lambda>n c. c[k * N + n := h (c ! (k * N + n)) n]) [0..<N] c) = K * N"
    using assms by simp
  show "fold (\<lambda>n c. c[k * N + n := h (c ! (k * N + n)) n]) [0..<N] c ! (k' * N + n) =
           (if k' = k then h (c ! (k * N + n)) n else c ! (k' * N + n))"
    if "k' < K" "n < N"
  proof (cases "k' = k")
    case True
    have "fold (\<lambda>n c. c[k * N + n := h (c ! (k * N + n)) n]) [0..<N] c ! (k * N + n) =
        h (c ! (k * N + n)) n"
      using that assms block_bound [of k K n N]
      by (intro fold_mod_hit) (auto simp: inj_on_def)
    then show ?thesis using True by simp
  next
    case False
    have "k' * N + n \<noteq> k * N + n'" if "n' < N" for n'
      using block_inj [of k' N n k n'] False \<open>n < N\<close> that by blast
    then have "k' * N + n \<notin> (\<lambda>n. k * N + n) ` set [0..<N]"
      by (auto simp del: set_upt simp add: atLeast_upt [symmetric])
    then show ?thesis
      using False by (simp add: fold_mod_other)
  qed
qed

section \<open>The three loops of the centroid updater\<close>

lemma zeroCentroids_nat:
  "zeroCentroids args k (counts, cents) =
     (counts[k := 0],
      fold (\<lambda>n c. c[k * nat (N_C args) + n := (\<lambda>x n. 0) (c ! (k * nat (N_C args) + n)) n])
        [0..<nat (N_C args)] cents)"
  unfolding zeroCentroids_def prod.case
  by (rule arg_cong2 [where f = Pair, OF refl], rule fold_cong) (auto simp: fun_eq_iff)

lemma zero_loop:
  assumes "length cents = K * nat (N_C args)" "\<forall>k\<in>set ks. k < K"
  shows "\<exists>counts' cents'. fold (zeroCentroids args) ks (counts, cents) = (counts', cents') \<and>
     counts' = fold (\<lambda>k c. c[k := 0]) ks counts \<and>
     length cents' = K * nat (N_C args) \<and>
     (\<forall>k'<K. \<forall>n<nat (N_C args). cents' ! (k' * nat (N_C args) + n) =
        (if k' \<in> set ks then 0 else cents ! (k' * nat (N_C args) + n)))"
  using assms
proof (induction ks arbitrary: counts cents)
  case Nil
  then show ?case by simp
next
  case (Cons k ks)
  let ?N = "nat (N_C args)"
  let ?c1 = "fold (\<lambda>n c. c[k * ?N + n := (\<lambda>x n. 0) (c ! (k * ?N + n)) n]) [0..<?N] cents"
  have k: "k < K" using Cons.prems by simp
  have len1: "length ?c1 = K * ?N"
    using Cons.prems(1) k by (rule block_loop(1))
  have nth1: "?c1 ! (k' * ?N + n) = (if k' = k then 0 else cents ! (k' * ?N + n))"
    if "k' < K" "n < ?N" for k' n
    using block_loop(2) [OF Cons.prems(1) k that, of "\<lambda>x n. 0"] by simp
  from Cons.IH [OF len1, of "counts[k := 0]"] Cons.prems(2)
  obtain counts' cents' where r:
    "fold (zeroCentroids args) ks (counts[k := 0], ?c1) = (counts', cents')"
    "counts' = fold (\<lambda>k c. c[k := 0]) ks (counts[k := 0])"
    "length cents' = K * ?N"
    "\<forall>k'<K. \<forall>n<?N. cents' ! (k' * ?N + n) = (if k' \<in> set ks then 0 else ?c1 ! (k' * ?N + n))"
    by auto
  show ?case
    using r nth1 by (auto simp: zeroCentroids_nat)
qed

lemma sum_inner_nat:
  assumes "0 \<le> k"
  shows "fold (\<lambda>n c. c[nat (k * N_C args + int n) :=
                 c ! nat (k * N_C args + int n) + data_C args ! nat (int m * N_C args + int n)])
           [0..<nat (N_C args)] cents =
         fold (\<lambda>n c. c[nat k * nat (N_C args) + n :=
                 (\<lambda>x n. x + data_C args ! (m * nat (N_C args) + n))
                   (c ! (nat k * nat (N_C args) + n)) n])
           [0..<nat (N_C args)] cents"
  using assms by (intro fold_cong) (auto simp: fun_eq_iff)

lemma sumContributions_ok:
  assumes "\<forall>m\<in>set ms. 0 \<le> clusterAssignments_C args ! m \<and> clusterAssignments_C args ! m < K_C args"
    and "length counts = nat (K_C args)"
    and "length cents = nat (K_C args) * nat (N_C args)"
  shows "\<exists>counts' cents'. sumContributions args ms (counts, cents) = Inr (counts', cents') \<and>
      length counts' = nat (K_C args) \<and> length cents' = nat (K_C args) * nat (N_C args) \<and>
      (\<forall>k<nat (K_C args). counts' ! k =
         counts ! k + int (length (filter (\<lambda>m. clusterAssignments_C args ! m = int k) ms))) \<and>
      (\<forall>k<nat (K_C args). \<forall>n<nat (N_C args). cents' ! (k * nat (N_C args) + n) =
         cents ! (k * nat (N_C args) + n) +
         sum_list (map (\<lambda>m. data_C args ! (m * nat (N_C args) + n))
                    (filter (\<lambda>m. clusterAssignments_C args ! m = int k) ms)))"
  using assms
proof (induction ms arbitrary: counts cents)
  case Nil
  then show ?case by simp
next
  case (Cons m ms)
  let ?N = "nat (N_C args)" and ?K = "nat (K_C args)"
  define k where "k = clusterAssignments_C args ! m"
  define kk where "kk = nat k"
  have k: "0 \<le> k" "k < K_C args" "kk < ?K" "k = int kk"
    using Cons.prems(1) by (auto simp: k_def kk_def)
  let ?c1 = "fold (\<lambda>n c. c[kk * ?N + n :=
                 (\<lambda>x n. x + data_C args ! (m * ?N + n)) (c ! (kk * ?N + n)) n]) [0..<?N] cents"
  let ?n1 = "counts[kk := counts ! kk + 1]"
  have step: "sumContributions args (m # ms) (counts, cents) = sumContributions args ms (?n1, ?c1)"
    using k sum_inner_nat [of k args m cents]
    by (simp add: k_def [symmetric] kk_def [symmetric] Let_def)
  have len1: "length ?c1 = ?K * ?N"
    using Cons.prems(3) k(3) by (rule block_loop(1))
  have nth1: "?c1 ! (k' * ?N + n) =
      (if k' = kk then cents ! (kk * ?N + n) + data_C args ! (m * ?N + n) else cents ! (k' * ?N + n))"
    if "k' < ?K" "n < ?N" for k' n
    using block_loop(2) [OF Cons.prems(3) k(3) that,
        of "\<lambda>x n. x + data_C args ! (m * ?N + n)"] by simp
  have "\<exists>counts' cents'. sumContributions args ms (?n1, ?c1) = Inr (counts', cents') \<and>
      length counts' = ?K \<and> length cents' = ?K * ?N \<and>
      (\<forall>k<?K. counts' ! k =
         ?n1 ! k + int (length (filter (\<lambda>m. clusterAssignments_C args ! m = int k) ms))) \<and>
      (\<forall>k<?K. \<forall>n<?N. cents' ! (k * ?N + n) =
         ?c1 ! (k * ?N + n) +
         sum_list (map (\<lambda>m. data_C args ! (m * ?N + n))
                    (filter (\<lambda>m. clusterAssignments_C args ! m = int k) ms)))"
    using Cons.prems by (intro Cons.IH) (simp_all add: len1)
  then obtain counts' cents' where r:
    "sumContributions args ms (?n1, ?c1) = Inr (counts', cents')"
    "length counts' = ?K" "length cents' = ?K * ?N"
    "\<forall>k<?K. counts' ! k =
         ?n1 ! k + int (length (filter (\<lambda>m. clusterAssignments_C args ! m = int k) ms))"
    "\<forall>k<?K. \<forall>n<?N. cents' ! (k * ?N + n) =
         ?c1 ! (k * ?N + n) +
         sum_list (map (\<lambda>m. data_C args ! (m * ?N + n))
                    (filter (\<lambda>m. clusterAssignments_C args ! m = int k) ms))"
    by blast
  have counts: "counts' ! k' =
         counts ! k' + int (length (filter (\<lambda>m. clusterAssignments_C args ! m = int k') (m # ms)))"
    if "k' < ?K" for k'
    using r(4) that k Cons.prems(2) by (auto simp: k_def [symmetric] nth_list_update)
  have cents: "cents' ! (k' * ?N + n) =
         cents ! (k' * ?N + n) +
         sum_list (map (\<lambda>m. data_C args ! (m * ?N + n))
                    (filter (\<lambda>m. clusterAssignments_C args ! m = int k') (m # ms)))"
    if "k' < ?K" "n < ?N" for k' n
    using r(5) that k nth1 [OF that] by (auto simp: k_def [symmetric])
  show ?case
    unfolding step using r(1,2,3) counts cents by blast
qed

lemma computeMeans_nat:
  assumes "k < length counts"
  shows "computeMeans args k (counts, cents) =
     (counts[k := max (counts ! k) 1],
      fold (\<lambda>n c. c[k * nat (N_C args) + n :=
              (\<lambda>x n. x / real_of_int (max (counts ! k) 1)) (c ! (k * nat (N_C args) + n)) n])
        [0..<nat (N_C args)] cents)"
  unfolding computeMeans_def prod.case Let_def
  using assms
  by (intro arg_cong2 [where f = Pair, OF refl] fold_cong) (auto simp: fun_eq_iff)

lemma mean_loop:
  assumes "distinct ks" "\<forall>k\<in>set ks. k < K" "length counts = K"
    and "length cents = K * nat (N_C args)"
  shows "\<exists>counts' cents'. fold (computeMeans args) ks (counts, cents) = (counts', cents') \<and>
     length counts' = K \<and> length cents' = K * nat (N_C args) \<and>
     (\<forall>k'<K. k' \<notin> set ks \<longrightarrow> counts' ! k' = counts ! k') \<and>
     (\<forall>k'<K. \<forall>n<nat (N_C args). cents' ! (k' * nat (N_C args) + n) =
        (if k' \<in> set ks
         then cents ! (k' * nat (N_C args) + n) / real_of_int (max (counts ! k') 1)
         else cents ! (k' * nat (N_C args) + n)))"
  using assms
proof (induction ks arbitrary: counts cents)
  case Nil
  then show ?case by simp
next
  case (Cons k ks)
  let ?N = "nat (N_C args)"
  let ?n1 = "counts[k := max (counts ! k) 1]"
  let ?c1 = "fold (\<lambda>n c. c[k * ?N + n :=
              (\<lambda>x n. x / real_of_int (max (counts ! k) 1)) (c ! (k * ?N + n)) n]) [0..<?N] cents"
  have k: "k < K" "k \<notin> set ks" using Cons.prems by simp_all
  have step: "computeMeans args k (counts, cents) = (?n1, ?c1)"
    using k Cons.prems(3) by (simp add: computeMeans_nat)
  have len1: "length ?c1 = K * ?N"
    using Cons.prems(4) k(1) by (rule block_loop(1))
  have nth1: "?c1 ! (k' * ?N + n) =
      (if k' = k then cents ! (k * ?N + n) / real_of_int (max (counts ! k) 1)
       else cents ! (k' * ?N + n))"
    if "k' < K" "n < ?N" for k' n
    using block_loop(2) [OF Cons.prems(4) k(1) that,
        of "\<lambda>x n. x / real_of_int (max (counts ! k) 1)"] by simp
  have "\<exists>counts' cents'. fold (computeMeans args) ks (?n1, ?c1) = (counts', cents') \<and>
     length counts' = K \<and> length cents' = K * ?N \<and>
     (\<forall>k'<K. k' \<notin> set ks \<longrightarrow> counts' ! k' = ?n1 ! k') \<and>
     (\<forall>k'<K. \<forall>n<?N. cents' ! (k' * ?N + n) =
        (if k' \<in> set ks then ?c1 ! (k' * ?N + n) / real_of_int (max (?n1 ! k') 1)
         else ?c1 ! (k' * ?N + n)))"
    using Cons.prems by (intro Cons.IH) (simp_all add: len1)
  then obtain counts' cents' where r:
    "fold (computeMeans args) ks (?n1, ?c1) = (counts', cents')"
    "length counts' = K" "length cents' = K * ?N"
    "\<forall>k'<K. k' \<notin> set ks \<longrightarrow> counts' ! k' = ?n1 ! k'"
    "\<forall>k'<K. \<forall>n<?N. cents' ! (k' * ?N + n) =
        (if k' \<in> set ks then ?c1 ! (k' * ?N + n) / real_of_int (max (?n1 ! k') 1)
         else ?c1 ! (k' * ?N + n))"
    by blast
  have counts: "counts' ! k' = counts ! k'" if "k' < K" "k' \<notin> set (k # ks)" for k'
    using r(4) that by simp
  have cents: "cents' ! (k' * ?N + n) =
        (if k' \<in> set (k # ks) then cents ! (k' * ?N + n) / real_of_int (max (counts ! k') 1)
         else cents ! (k' * ?N + n))"
    if "k' < K" "n < ?N" for k' n
    using r(5) that k nth1 [OF that] by auto
  show ?case
    using r(1,2,3) counts cents by (simp add: step)
qed

lemma members_filter:
  "set (filter (\<lambda>m. clusterAssignments_C args ! m = int k) [0..<nat (M_C args)]) = members args k"
  by (simp add: members_def)


lemma members_finite [simp]: "finite (members args k)"
  by (simp add: members_def)

lemma computeCentroids_result:
  assumes "length (clusterCentroids_C args) = nat (K_C args) * nat (N_C args)"
    and "\<forall>m<nat (M_C args). 0 \<le> clusterAssignments_C args ! m \<and> clusterAssignments_C args ! m < K_C args"
    and K0: "0 \<le> K_C args"
  shows "\<exists>cents'. computeCentroids args = Inr (args\<lparr>clusterCentroids_C := cents'\<rparr>) \<and>
     length cents' = nat (K_C args) * nat (N_C args) \<and>
     (\<forall>k<nat (K_C args). \<forall>n<nat (N_C args).
        cents' ! (k * nat (N_C args) + n) =
          (\<Sum>m\<in>members args k. data_C args ! (m * nat (N_C args) + n))
            / real (max (card (members args k)) 1))"
proof -
  let ?K = "nat (K_C args)" and ?N = "nat (N_C args)" and ?M = "nat (M_C args)"
  let ?P = "\<lambda>k m. clusterAssignments_C args ! m = int k"
  obtain counts1 cents1 where z:
    "fold (zeroCentroids args) [0..<?K] (replicate ?K 0, clusterCentroids_C args) = (counts1, cents1)"
    "counts1 = fold (\<lambda>k c. c[k := 0]) [0..<?K] (replicate ?K 0)"
    "length cents1 = ?K * ?N"
    "\<forall>k'<?K. \<forall>n<?N. cents1 ! (k' * ?N + n) =
        (if k' \<in> set [0..<?K] then 0 else clusterCentroids_C args ! (k' * ?N + n))"
    using zero_loop [OF assms(1), of "[0..<?K]" "replicate ?K 0"] by auto
  have counts1: "length counts1 = ?K" "\<forall>k<?K. counts1 ! k = 0"
    by (simp_all add: z(2) fold_const_upd_nth)
  have cents1: "\<forall>k<?K. \<forall>n<?N. cents1 ! (k * ?N + n) = 0"
    using z(4) by simp
  obtain counts2 cents2 where s:
    "sumContributions args [0..<?M] (counts1, cents1) = Inr (counts2, cents2)"
    "length counts2 = ?K" "length cents2 = ?K * ?N"
    "\<forall>k<?K. counts2 ! k = counts1 ! k + int (length (filter (?P k) [0..<?M]))"
    "\<forall>k<?K. \<forall>n<?N. cents2 ! (k * ?N + n) =
         cents1 ! (k * ?N + n) +
         sum_list (map (\<lambda>m. data_C args ! (m * ?N + n)) (filter (?P k) [0..<?M]))"
    using sumContributions_ok [of "[0..<?M]" args counts1 cents1] assms(2) counts1(1) z(3)
    by auto
  obtain counts3 cents3 where m:
    "fold (computeMeans args) [0..<?K] (counts2, cents2) = (counts3, cents3)"
    "length cents3 = ?K * ?N"
    "\<forall>k'<?K. \<forall>n<?N. cents3 ! (k' * ?N + n) =
        (if k' \<in> set [0..<?K]
         then cents2 ! (k' * ?N + n) / real_of_int (max (counts2 ! k') 1)
         else cents2 ! (k' * ?N + n))"
    using mean_loop [of "[0..<?K]" ?K counts2 cents2 args] s(2,3) by auto
  have res: "computeCentroids args = Inr (args\<lparr>clusterCentroids_C := cents3\<rparr>)"
    using K0 by (simp add: computeCentroids_def Let_def z(1) s(1) m(1))
  have nth: "cents3 ! (k * ?N + n) =
          (\<Sum>m\<in>members args k. data_C args ! (m * ?N + n)) / real (max (card (members args k)) 1)"
    if kn: "k < ?K" "n < ?N" for k n
  proof -
    have d: "distinct (filter (?P k) [0..<?M])" by simp
    have cnt: "length (filter (?P k) [0..<?M]) = card (members args k)"
      using distinct_card [OF d] by (simp only: members_filter)
    have sm: "sum_list (map (\<lambda>m. data_C args ! (m * ?N + n)) (filter (?P k) [0..<?M])) =
        (\<Sum>m\<in>members args k. data_C args ! (m * ?N + n))"
      using sum_list_distinct_conv_sum_set [OF d, of "\<lambda>m. data_C args ! (m * ?N + n)"]
      by (simp only: members_filter)
    have c2: "counts2 ! k = int (card (members args k))"
      using s(4) counts1(2) kn by (simp add: cnt)
    have e2: "cents2 ! (k * ?N + n) = (\<Sum>m\<in>members args k. data_C args ! (m * ?N + n))"
      using s(5) cents1 kn by (simp add: sm)
    have "real_of_int (max (int (card (members args k))) 1) = real (max (card (members args k)) 1)"
      by (simp add: max_def)
    then show ?thesis
      using m(3) kn by (simp add: c2 e2)
  qed
  show ?thesis
    using res m(2) nth by blast
qed

section \<open>Centroids are the means of their members\<close>

text \<open>
  Claim C6. For \<open>K \<ge> 0\<close> and an assignment vector with entries in \<open>[0, K)\<close>, \<open>computeCentroids\<close>
  succeeds and overwrites the centroid array: coordinate \<open>n\<close> of centroid \<open>k\<close> becomes the
  sum of coordinate \<open>n\<close> over the points assigned to \<open>k\<close>, divided by \<open>max(count, 1)\<close>
  where \<open>count\<close> is the number of those points. A cluster without points ends with zeros
  in all its coordinates.
\<close>

theorem computeCentroids_means:
  assumes "wellSized args" and "0 \<le> K_C args"
    and "\<forall>m<nat (M_C args). 0 \<le> clusterAssignments_C args ! m \<and> clusterAssignments_C args ! m < K_C args"
  shows "\<exists>cents'. computeCentroids args = Inr (args\<lparr>clusterCentroids_C := cents'\<rparr>) \<and>
     length cents' = nat (K_C args) * nat (N_C args) \<and>
     (\<forall>k<nat (K_C args). \<forall>n<nat (N_C args).
        cents' ! (k * nat (N_C args) + n) =
          (\<Sum>m\<in>members args k. data_C args ! (m * nat (N_C args) + n))
            / real (max (card (members args k)) 1) \<and>
        (members args k = {} \<longrightarrow> cents' ! (k * nat (N_C args) + n) = 0))"
proof -
  from assms obtain cents' where c:
    "computeCentroids args = Inr (args\<lparr>clusterCentroids_C := cents'\<rparr>)"
    "length cents' = nat (K_C args) * nat (N_C args)"
    "\<forall>k<nat (K_C args). \<forall>n<nat (N_C args).
        cents' ! (k * nat (N_C args) + n) =
          (\<Sum>m\<in>members args k. data_C args ! (m * nat (N_C args) + n))
            / real (max (card (members args k)) 1)"
    using computeCentroids_result [of args] by (auto simp: wellSized_def)
  have "cents' ! (k * nat (N_C args) + n) = 0"
    if "k < nat (K_C args)" "n < nat (N_C args)" "members args k = {}" for k n
    using c(3) that by simp
  with c show ?thesis
    by blast
qed

text \<open>
  Three points \<open>(1, 2)\<close>, \<open>(3, 6)\<close>, \<open>(10, 20)\<close> of the plane, three clusters, assignments
  \<open>0, 0, 2\<close>: the centroids become \<open>(2, 4)\<close>, \<open>(0, 0)\<close> and \<open>(10, 20)\<close>.
\<close>

theorem computeCentroids_means_witness:
  "wellSized \<lparr>start_C = 0, end_C = 0, data_C = [1, 2, 3, 6, 10, 20],
      clusterCentroids_C = [9, 9, 9, 9, 9, 9], clusterAssignments_C = [0, 0, 2],
      currCost_C = [0, 0, 0], M_C = 3, N_C = 2, K_C = 3, threadId_C = 0, numThreads_C = 0\<rparr> \<and>
   computeCentroids \<lparr>start_C = 0, end_C = 0, data_C = [1, 2, 3, 6, 10, 20],
      clusterCentroids_C = [9, 9, 9, 9, 9, 9], clusterAssignments_C = [0, 0, 2],
      currCost_C = [0, 0, 0], M_C = 3, N_C = 2, K_C = 3, threadId_C = 0, numThreads_C = 0\<rparr>
   = Inr \<lparr>start_C = 0, end_C = 0, data_C = [1, 2, 3, 6, 10, 20],
      clusterCentroids_C = [2, 4, 0, 0, 10, 20], clusterAssignments_C = [0, 0, 2],
      currCost_C = [0, 0, 0], M_C = 3, N_C = 2, K_C = 3, threadId_C = 0, numThreads_C = 0\<rparr>"
  using computeCentroids_means
    [of "\<lparr>start_C = 0, end_C = 0, data_C = [1, 2, 3, 6, 10, 20],
      clusterCentroids_C = [9, 9, 9, 9, 9, 9], clusterAssignments_C = [0, 0, 2],
      currCost_C = [0, 0, 0], M_C = 3, N_C = 2, K_C = 3, threadId_C = 0, numThreads_C = 0\<rparr>"]
  by (simp add: wellSized_def computeCentroids_def zeroCentroids_def computeMeans_def Let_def
      eval_nat_numeral)

section \<open>Recomputing the centroids\<close>

lemma sumContributions_Inr_range:
  "sumContributions args ms st = Inr st' \<Longrightarrow>
   \<forall>m\<in>set ms. 0 \<le> clusterAssignments_C args ! m \<and> clusterAssignments_C args ! m < K_C args"
proof (induction ms arbitrary: st)
  case Nil
  then show ?case by simp
next
  case (Cons m ms)
  obtain counts cents where st: "st = (counts, cents)" by (cases st)
  from Cons.prems have ok: "0 \<le> clusterAssignments_C args ! m \<and> clusterAssignments_C args ! m < K_C args"
    unfolding st by (auto simp: Let_def split: if_splits)
  with Cons.prems obtain st1 where "sumContributions args ms st1 = Inr st'"
    unfolding st by (auto simp: Let_def)
  from Cons.IH [OF this] ok show ?case by simp
qed

lemma computeCentroids_Inr_range:
  assumes "computeCentroids args = Inr a"
  shows "\<forall>m<nat (M_C args). 0 \<le> clusterAssignments_C args ! m \<and> clusterAssignments_C args ! m < K_C args"
proof -
  from assms obtain st st' where "sumContributions args [0..<nat (M_C args)] st = Inr st'"
    by (auto simp: computeCentroids_def Let_def split: if_splits sum.splits)
  from sumContributions_Inr_range [OF this] show ?thesis by simp
qed

lemma computeCentroids_Inr_K:
  "computeCentroids args = Inr a \<Longrightarrow> 0 \<le> K_C args"
  by (auto simp: computeCentroids_def split: if_splits)

text \<open>Every index below \<open>K * N\<close> is \<open>k * N + n\<close> for one \<open>k < K\<close> and one \<open>n < N\<close>.\<close>

lemma block_split:
  fixes N :: nat
  assumes "j < K * N"
  obtains k n where "k < K" "n < N" "j = k * N + n"
proof -
  have N: "0 < N" using assms by (cases N) simp_all
  have "j div N < K"
    using assms N by (simp add: less_mult_imp_div_less)
  moreover have "j mod N < N" using N by simp
  moreover have "j = (j div N) * N + j mod N" by simp
  ultimately show ?thesis using that by blast
qed

text \<open>
  The centroids that \<open>computeCentroids\<close> leaves do not depend on the centroids it finds.
\<close>

lemma computeCentroids_overwrites:
  assumes "length (clusterCentroids_C args) = nat (K_C args) * nat (N_C args)"
    and "length c = nat (K_C args) * nat (N_C args)"
    and "computeCentroids args = Inr a"
  shows "\<exists>a'. computeCentroids (args\<lparr>clusterCentroids_C := c\<rparr>) = Inr a' \<and>
           clusterCentroids_C a' = clusterCentroids_C a"
proof -
  let ?K = "nat (K_C args)" and ?N = "nat (N_C args)"
  let ?args' = "args\<lparr>clusterCentroids_C := c\<rparr>"
  have rng: "\<forall>m<nat (M_C args). 0 \<le> clusterAssignments_C args ! m \<and> clusterAssignments_C args ! m < K_C args"
    using assms(3) by (rule computeCentroids_Inr_range)
  have K0: "0 \<le> K_C args"
    using assms(3) by (rule computeCentroids_Inr_K)
  have mem: "members ?args' = members args"
    by (simp add: members_def fun_eq_iff)
  obtain c1 where c1: "computeCentroids args = Inr (args\<lparr>clusterCentroids_C := c1\<rparr>)"
    "length c1 = ?K * ?N"
    "\<forall>k<?K. \<forall>n<?N. c1 ! (k * ?N + n) =
          (\<Sum>m\<in>members args k. data_C args ! (m * ?N + n)) / real (max (card (members args k)) 1)"
    using computeCentroids_result [OF assms(1) rng K0] by blast
  obtain c2 where c2: "computeCentroids ?args' = Inr (?args'\<lparr>clusterCentroids_C := c2\<rparr>)"
    "length c2 = ?K * ?N"
    "\<forall>k<?K. \<forall>n<?N. c2 ! (k * ?N + n) =
          (\<Sum>m\<in>members args k. data_C args ! (m * ?N + n)) / real (max (card (members args k)) 1)"
    using computeCentroids_result [of ?args'] assms(2) rng K0 by (auto simp: mem)
  have "c2 = c1"
  proof (rule nth_equalityI)
    show "length c2 = length c1" by (simp add: c1(2) c2(2))
    fix j assume "j < length c2"
    then have "j < ?K * ?N" by (simp add: c2(2))
    then obtain k n where "k < ?K" "n < ?N" "j = k * ?N + n"
      by (rule block_split)
    then show "c2 ! j = c1 ! j"
      using c1(3) c2(3) by simp
  qed
  moreover have "clusterCentroids_C a = c1"
    using c1(1) assms(3) by auto
  ultimately show ?thesis
    using c2(1) by simp
qed

text \<open>
  Claim C8. Run the centroid updater, then the assignment phase, and suppose the
  assignment vector is the same after it; the centroid updater run again succeeds and
  leaves the centroids of its first pass.
\<close>

theorem computeCentroids_idempotent:
  assumes "wellSized args"
    and "computeCentroids args = Inr a1"
    and "computeAssignments a1 numThreads = Inr a2"
    and "clusterAssignments_C a2 = clusterAssignments_C a1"
  shows "\<exists>a3. computeCentroids a2 = Inr a3 \<and> clusterCentroids_C a3 = clusterCentroids_C a1"
proof -
  have a2: "a2 = a1"
    using computeAssignments_frame [OF assms(3)] assms(4) by simp
  have a1: "a1 = args\<lparr>clusterCentroids_C := clusterCentroids_C a1\<rparr>"
    using assms(2) by (rule computeCentroids_frame)
  have len: "length (clusterCentroids_C args) = nat (K_C args) * nat (N_C args)"
    using assms(1) by (simp add: wellSized_def)
  have rng: "\<forall>m<nat (M_C args). 0 \<le> clusterAssignments_C args ! m \<and> clusterAssignments_C args ! m < K_C args"
    using assms(2) by (rule computeCentroids_Inr_range)
  have K0: "0 \<le> K_C args"
    using assms(2) by (rule computeCentroids_Inr_K)
  have len1: "length (clusterCentroids_C a1) = nat (K_C args) * nat (N_C args)"
    using computeCentroids_result [OF len rng K0] assms(2) by auto
  from computeCentroids_overwrites [OF len len1 assms(2)] a1 a2 show ?thesis
    by simp
qed

text \<open>
  Points \<open>1, 3, 10\<close> of a line, assignments \<open>0, 0, 1\<close>, centroids seeded at \<open>7, 7\<close>: the
  first pass gives the centroids \<open>2, 10\<close>, the assignment phase finds \<open>0, 0, 1\<close> again,
  the second pass gives \<open>2, 10\<close>.
\<close>

theorem computeCentroids_idempotent_witness:
  "computeCentroids \<lparr>start_C = 0, end_C = 0, data_C = [1, 3, 10],
      clusterCentroids_C = [7, 7], clusterAssignments_C = [0, 0, 1],
      currCost_C = [0, 0], M_C = 3, N_C = 1, K_C = 2, threadId_C = 0, numThreads_C = 0\<rparr>
   = Inr \<lparr>start_C = 0, end_C = 0, data_C = [1, 3, 10],
      clusterCentroids_C = [2, 10], clusterAssignments_C = [0, 0, 1],
      currCost_C = [0, 0], M_C = 3, N_C = 1, K_C = 2, threadId_C = 0, numThreads_C = 0\<rparr> \<and>
   computeAssignments \<lparr>start_C = 0, end_C = 0, data_C = [1, 3, 10],
      clusterCentroids_C = [2, 10], clusterAssignments_C = [0, 0, 1],
      currCost_C = [0, 0], M_C = 3, N_C = 1, K_C = 2, threadId_C = 0, numThreads_C = 0\<rparr> 1
   = Inr \<lparr>start_C = 0, end_C = 0, data_C = [1, 3, 10],
      clusterCentroids_C = [2, 10], clusterAssignments_C = [0, 0, 1],
      currCost_C = [0, 0], M_C = 3, N_C = 1, K_C = 2, threadId_C = 0, numThreads_C = 0\<rparr> \<and>
   (\<exists>a3. computeCentroids \<lparr>start_C = 0, end_C = 0, data_C = [1, 3, 10],
      clusterCentroids_C = [2, 10], clusterAssignments_C = [0, 0, 1],
      currCost_C = [0, 0], M_C = 3, N_C = 1, K_C = 2, threadId_C = 0, numThreads_C = 0\<rparr>
      = Inr a3 \<and> clusterCentroids_C a3 = [2, 10])"
proof -
  let ?args = "\<lparr>start_C = 0, end_C = 0, data_C = [1, 3, 10],
      clusterCentroids_C = [7, 7], clusterAssignments_C = [0, 0, 1],
      currCost_C = [0, 0], M_C = 3, N_C = 1, K_C = 2, threadId_C = 0, numThreads_C = 0\<rparr>"
  let ?a1 = "\<lparr>start_C = 0, end_C = 0, data_C = [1, 3, 10],
      clusterCentroids_C = [2, 10], clusterAssignments_C = [0, 0, 1],
      currCost_C = [0, 0], M_C = 3, N_C = 1, K_C = 2, threadId_C = 0, numThreads_C = 0\<rparr>"
  have w: "wellSized ?args"
    by (simp add: wellSized_def)
  have c: "computeCentroids ?args = Inr ?a1"
    by (simp add: computeCentroids_def zeroCentroids_def computeMeans_def Let_def eval_nat_numeral)
  have a: "computeAssignments ?a1 1 = Inr ?a1"
    by (simp add: computeAssignments_def args_arr_def workerThreadStart_def
        kernelInit_def kernelStep_def Let_def signed_divide_int_def eval_nat_numeral)
  from computeCentroids_idempotent [OF w c a] c a show ?thesis
    by simp
qed

section \<open>The driver before its first pass\<close>

lemma cost_init:
  "fold (\<lambda>k (p, c). (p[k := x], c[k := y])) ks (p0, c0) =
     (fold (\<lambda>k p. p[k := x]) ks p0, fold (\<lambda>k c. c[k := y]) ks c0)"
  by (induction ks arbitrary: p0 c0) auto

lemma zero_fill:
  "fold (\<lambda>k c. c[k := x]) [0..<n] (replicate n y) = replicate n x"
  by (rule nth_equalityI) (simp_all add: fold_const_upd_nth)

text \<open>
  After its two initialising loops the driver enters the \<^verbatim>\<open>while\<close> loop with every
  previous cost \<^verbatim>\<open>1e30\<close> and every current cost \<open>0\<close>.
\<close>

lemma kMeansThreadWith_loop:
  assumes "0 \<le> K"
  shows "kMeansThreadWith T data cents asg M N K epsilon =
     (case kMeansLoop epsilon T (replicate (nat K) (10 ^ 30),
             \<lparr>start_C = 0, end_C = 0, data_C = data, clusterCentroids_C = cents,
              clusterAssignments_C = asg, currCost_C = replicate (nat K) 0,
              M_C = M, N_C = N, K_C = K, threadId_C = 0, numThreads_C = 0\<rparr>) of
        None \<Rightarrow> None
      | Some (Inl e) \<Rightarrow> Some (Inl e)
      | Some (Inr a) \<Rightarrow> Some (Inr (clusterCentroids_C a, clusterAssignments_C a)))"
  using assms by (simp add: kMeansThreadWith_def Let_def cost_init zero_fill)

lemma first_test_fails:
  assumes "0 < K" "epsilon < 10 ^ 30"
  shows "\<not> stoppingConditionMet (replicate (nat K) (10 ^ 30)) (replicate (nat K) 0) epsilon K"
proof
  assume "stoppingConditionMet (replicate (nat K) (10 ^ 30)) (replicate (nat K) 0) epsilon K"
  then have all: "\<forall>k<nat K. \<bar>replicate (nat K) (10 ^ 30 :: real) ! k
      - replicate (nat K) (0::real) ! k\<bar> \<le> epsilon"
    by (simp only: stoppingConditionMet_iff)
  have "0 < nat K"
    using assms(1) by simp
  with all have "\<bar>replicate (nat K) (10 ^ 30 :: real) ! 0 - replicate (nat K) (0::real) ! 0\<bar> \<le> epsilon"
    by blast
  with assms show False
    by simp
qed

section \<open>The phases of a pass on bounded coordinates\<close>







lemma sumCost_ok:
  assumes "\<forall>m\<in>set ms. 0 \<le> clusterAssignments_C args ! m \<and> clusterAssignments_C args ! m < K_C args"
  shows "\<exists>accum'. sumCost args ms accum = Inr accum' \<and> length accum' = length accum \<and>
           (N_C args \<le> 0 \<longrightarrow> accum' = accum)"
  using assms
proof (induction ms arbitrary: accum)
  case Nil
  show ?case by simp
next
  case (Cons m ms)
  let ?k = "clusterAssignments_C args ! m"
  let ?acc = "accum[nat ?k := accum ! nat ?k
                + distL2 (drop (nat (int m * N_C args)) (data_C args))
                         (drop (nat (?k * N_C args)) (clusterCentroids_C args)) (N_C args)]"
  from Cons.prems have k: "0 \<le> ?k \<and> ?k < K_C args"
    and rest: "\<forall>m\<in>set ms. 0 \<le> clusterAssignments_C args ! m \<and>
                 clusterAssignments_C args ! m < K_C args"
    by simp_all
  from Cons.IH [OF rest, of ?acc] obtain accum' where a: "sumCost args ms ?acc = Inr accum'"
    "length accum' = length ?acc" "N_C args \<le> 0 \<longrightarrow> accum' = ?acc"
    by blast
  have "N_C args \<le> 0 \<Longrightarrow> ?acc = accum"
    by (simp add: distL2_def)
  with a k show ?case
    by (auto simp: Let_def)
qed

lemma computeCost_ok:
  assumes K: "0 \<le> K_C args" and cc: "length (currCost_C args) = nat (K_C args)"
    and r: "\<forall>m<nat (M_C args). 0 \<le> clusterAssignments_C args ! m \<and>
              clusterAssignments_C args ! m < K_C args"
  shows "\<exists>c. computeCost args = Inr (args\<lparr>currCost_C := c\<rparr>) \<and> length c = nat (K_C args) \<and>
           (N_C args \<le> 0 \<longrightarrow> c = replicate (nat (K_C args)) 0)"
proof -
  let ?K = "nat (K_C args)"
  have "\<forall>m\<in>set [0..<nat (M_C args)]. 0 \<le> clusterAssignments_C args ! m \<and>
          clusterAssignments_C args ! m < K_C args"
    using r by simp
  from sumCost_ok [OF this, of "replicate ?K 0"]
  obtain accum where acc: "sumCost args [0..<nat (M_C args)] (replicate ?K 0) = Inr accum"
    "length accum = ?K" "N_C args \<le> 0 \<longrightarrow> accum = replicate ?K 0"
    by auto
  have "fold (\<lambda>k c. c[k := accum ! k]) [0..<?K] (currCost_C args) = accum"
    using cc acc(2) by (intro copy_loop) simp_all
  then have "computeCost args = Inr (args\<lparr>currCost_C := accum\<rparr>)"
    using K acc(1) by (simp add: computeCost_def Let_def zero_fill)
  with acc(2,3) show ?thesis
    by blast
qed

section \<open>Entries of the assignment vector\<close>







section \<open>No validation of the dimensions\<close>

lemma computeAssignments_zero_M:
  assumes "M_C args = 0" "0 < T"
  shows "computeAssignments args T = Inr args"
proof -
  have "\<forall>w\<in>set (args_arr args T). end_C w = start_C w"
    using assms by (auto simp: args_arr_def Let_def)
  then have "runWorkers (args_arr args T) (clusterAssignments_C args) = Inr (clusterAssignments_C args)"
    by (rule runWorkers_empty)
  then show ?thesis
    using assms(2) by (simp add: computeAssignments_def)
qed

text \<open>
  With \<open>M < 0\<close> the range of worker 0 starts at \<open>0\<close> and ends at or below \<open>M\<close>, and
  its \<^verbatim>\<open>new double[numPoints]\<close> has a negative size.
\<close>

lemma computeAssignments_neg_M:
  assumes "M_C args < 0" "0 < T"
  shows "\<exists>n. computeAssignments args T = Inl (BadArrayNewLength n)"
proof -
  define p where "p = M_C args sdiv T"
  define w0 where "w0 = args\<lparr>threadId_C := 0, numThreads_C := T, start_C := 0,
                       end_C := min p (M_C args)\<rparr>"
  have "[0..<nat T] = 0 # [Suc 0..<nat T]"
    using assms(2) by (simp add: upt_conv_Cons)
  then obtain ws where ws: "args_arr args T = w0 # ws"
    by (simp add: args_arr_def Let_def p_def w0_def)
  let ?w = "w0\<lparr>clusterAssignments_C := clusterAssignments_C args\<rparr>"
  have "end_C ?w < start_C ?w"
    using assms(1) by (simp add: w0_def)
  then have "workerThreadStart ?w = Inl (BadArrayNewLength (end_C ?w - start_C ?w))"
    by (rule workerThreadStart_Inl)
  then have "runWorkers (args_arr args T) (clusterAssignments_C args) =
      Inl (BadArrayNewLength (end_C ?w - start_C ?w))"
    by (simp add: ws)
  then show ?thesis
    using assms(2) by (simp add: computeAssignments_def)
qed

lemma computeCost_zero_M:
  assumes "M_C args = 0" "0 \<le> K_C args" "length (currCost_C args) = nat (K_C args)"
  shows "computeCost args = Inr (args\<lparr>currCost_C := replicate (nat (K_C args)) 0\<rparr>)"
proof -
  have "fold (\<lambda>k c. c[k := replicate (nat (K_C args)) (0::real) ! k]) [0..<nat (K_C args)]
          (currCost_C args) = replicate (nat (K_C args)) 0"
    using assms(3) by (intro copy_loop) simp_all
  then show ?thesis
    using assms(1,2) by (simp add: computeCost_def Let_def zero_fill)
qed

lemma computeCentroids_zero_M:
  assumes "M_C args = 0" "0 \<le> K_C args"
  shows "\<exists>c. computeCentroids args = Inr (args\<lparr>clusterCentroids_C := c\<rparr>)"
proof -
  have "computeCentroids args = Inr (args\<lparr>clusterCentroids_C :=
      snd (fold (computeMeans args) [0..<nat (K_C args)]
             (fold (zeroCentroids args) [0..<nat (K_C args)]
                (replicate (nat (K_C args)) 0, clusterCentroids_C args)))\<rparr>)"
    using assms by (simp add: computeCentroids_def Let_def)
  then show ?thesis
    by blast
qed

lemma kMeansLoop_zero_M:
  assumes "M_C args = 0" "0 < T" "0 \<le> epsilon" "0 \<le> K_C args"
    and "currCost_C args = replicate (nat (K_C args)) 0" "length prevCost = nat (K_C args)"
    and "\<not> stoppingConditionMet prevCost (currCost_C args) epsilon (K_C args)"
  shows "\<exists>a. kMeansLoop epsilon T (prevCost, args) = Some (Inr a) \<and>
           clusterAssignments_C a = clusterAssignments_C args"
proof -
  let ?K = "nat (K_C args)"
  obtain c where c: "computeCentroids args = Inr (args\<lparr>clusterCentroids_C := c\<rparr>)"
    using computeCentroids_zero_M [OF assms(1,4)] by blast
  let ?a2 = "args\<lparr>clusterCentroids_C := c\<rparr>"
  let ?a3 = "?a2\<lparr>currCost_C := replicate ?K 0\<rparr>"
  have cost: "computeCost ?a2 = Inr ?a3"
    using computeCost_zero_M [of ?a2] assms(1,4,5) by simp
  have prev: "fold (\<lambda>k p. p[k := currCost_C args ! k]) [0..<?K] prevCost = currCost_C args"
    using assms(5,6) by (intro copy_loop) simp_all
  have iter: "kMeansIter T (prevCost, args) = Inr (currCost_C args, ?a3)"
    using assms(1,2) by (simp add: kMeansIter_def computeAssignments_zero_M c cost prev)
  then have iter: "kMeansIter T (prevCost, args) = Inr (replicate ?K 0, ?a3)"
    by (simp only: assms(5) [symmetric])
  have stop: "stoppingConditionMet (replicate ?K 0) (currCost_C ?a3) epsilon (K_C ?a3)"
    using assms(3) by (simp add: stoppingConditionMet_iff)
  have "kMeansLoop epsilon T (replicate ?K 0, ?a3) = Some (Inr ?a3)"
    using stop by (subst kMeansLoop.simps) simp
  then have "kMeansLoop epsilon T (prevCost, args) = Some (Inr ?a3)"
    using assms(7) iter by (subst kMeansLoop.simps) simp
  then show ?thesis
    by simp
qed

lemma kMeansLoop_neg_M:
  assumes "M_C args < 0" "0 < T"
    and "\<not> stoppingConditionMet prevCost (currCost_C args) epsilon (K_C args)"
  shows "\<exists>n. kMeansLoop epsilon T (prevCost, args) = Some (Inl (BadArrayNewLength n))"
proof -
  obtain n where "computeAssignments args T = Inl (BadArrayNewLength n)"
    using computeAssignments_neg_M [OF assms(1,2)] by blast
  then have "kMeansIter T (prevCost, args) = Inl (BadArrayNewLength n)"
    by (simp add: kMeansIter_def)
  then have "kMeansLoop epsilon T (prevCost, args) = Some (Inl (BadArrayNewLength n))"
    using assms(3) by (subst kMeansLoop.simps) simp
  then show ?thesis
    by blast
qed

text \<open>
  With \<open>N \<le> 0\<close> every loop over the dimensions is empty: every distance is \<open>0\<close>, the
  kernel records centroid \<open>0\<close> for every point of its range, the centroid updater leaves
  the centroid array as it was and every cost is \<open>0\<close>.
\<close>

lemma pointDist_no_dims: "N_C args \<le> 0 \<Longrightarrow> pointDist args m k = 0"
  by (simp add: pointDist_def distL2_def)

lemma nearest_no_dims:
  assumes "N_C args \<le> 0" "0 < K_C args"
  shows "nearest args m = 0"
proof -
  have "0 < nat (K_C args)" "pointDist args m 0 < 10 ^ 30"
    using assms by (simp_all add: pointDist_no_dims)
  from nearest_near [OF this] obtain r where r: "nearest args m = int r"
    "\<forall>k<r. pointDist args m r < pointDist args m k"
    by blast
  have "r = 0"
  proof (rule ccontr)
    assume "r \<noteq> 0"
    then have "0 < r" by simp
    with r(2) have "pointDist args m r < pointDist args m 0" by blast
    then show False
      using assms(1) by (simp add: pointDist_no_dims)
  qed
  with r(1) show ?thesis by simp
qed

lemma zeroCentroids_no_dims:
  "N_C args \<le> 0 \<Longrightarrow> snd (fold (zeroCentroids args) ks st) = snd st"
  by (induction ks arbitrary: st) (auto simp: zeroCentroids_def split: prod.splits)

lemma computeMeans_no_dims:
  "N_C args \<le> 0 \<Longrightarrow> snd (fold (computeMeans args) ks st) = snd st"
  by (induction ks arbitrary: st) (auto simp: computeMeans_def Let_def split: prod.splits)

lemma sumContributions_no_dims:
  assumes "N_C args \<le> 0"
    and "\<forall>m\<in>set ms. 0 \<le> clusterAssignments_C args ! m \<and> clusterAssignments_C args ! m < K_C args"
  shows "\<exists>counts'. sumContributions args ms (counts, cents) = Inr (counts', cents)"
  using assms by (induction ms arbitrary: counts) (auto simp: Let_def)

lemma computeCentroids_no_dims:
  assumes N: "N_C args \<le> 0" and K: "0 \<le> K_C args"
    and r: "\<forall>m<nat (M_C args). 0 \<le> clusterAssignments_C args ! m \<and>
              clusterAssignments_C args ! m < K_C args"
  shows "computeCentroids args = Inr args"
proof -
  let ?st0 = "(replicate (nat (K_C args)) (0::int), clusterCentroids_C args)"
  obtain c1 where st1: "fold (zeroCentroids args) [0..<nat (K_C args)] ?st0
      = (c1, clusterCentroids_C args)"
    using zeroCentroids_no_dims [OF N, of "[0..<nat (K_C args)]" ?st0]
    by (cases "fold (zeroCentroids args) [0..<nat (K_C args)] ?st0") simp
  have "\<forall>m\<in>set [0..<nat (M_C args)]. 0 \<le> clusterAssignments_C args ! m \<and>
          clusterAssignments_C args ! m < K_C args"
    using r by simp
  from sumContributions_no_dims [OF N this]
  obtain c2 where st2: "sumContributions args [0..<nat (M_C args)] (c1, clusterCentroids_C args)
      = Inr (c2, clusterCentroids_C args)"
    by blast
  show ?thesis
    using K by (simp add: computeCentroids_def Let_def st1 st2 computeMeans_no_dims [OF N])
qed

lemma kMeansLoop_no_dims:
  assumes N: "N_C args \<le> 0" and K: "0 < K_C args" and T: "0 < T" and eps: "0 \<le> epsilon"
    and M: "M_C args = int (length (clusterAssignments_C args))"
    and cc: "currCost_C args = replicate (nat (K_C args)) 0"
    and p: "length prevCost = nat (K_C args)"
    and r: "\<forall>m<length (clusterAssignments_C args). (M_C args div T) * T \<le> int m \<longrightarrow>
              0 \<le> clusterAssignments_C args ! m \<and> clusterAssignments_C args ! m < K_C args"
    and ns: "\<not> stoppingConditionMet prevCost (currCost_C args) epsilon (K_C args)"
  shows "kMeansLoop epsilon T (prevCost, args) =
     Some (Inr (args\<lparr>clusterAssignments_C :=
        map (\<lambda>m. if int m < (M_C args div T) * T then 0 else clusterAssignments_C args ! m)
            [0..<length (clusterAssignments_C args)]\<rparr>))"
proof -
  let ?K = "nat (K_C args)"
  let ?asg = "map (\<lambda>m. if int m < (M_C args div T) * T then 0 else clusterAssignments_C args ! m)
            [0..<length (clusterAssignments_C args)]"
  obtain asg' where a: "computeAssignments args T = Inr (args\<lparr>clusterAssignments_C := asg'\<rparr>)"
    "length asg' = length (clusterAssignments_C args)"
    "\<forall>j<length (clusterAssignments_C args). asg' ! j =
        (if int j < (M_C args div T) * T then nearest args (int j)
         else clusterAssignments_C args ! j)"
    using computeAssignments_asg [OF T M] by blast
  have "asg' = ?asg"
    using a(2,3) by (intro nth_equalityI) (simp_all add: nearest_no_dims [OF N K])
  with a(1) have a1: "computeAssignments args T = Inr (args\<lparr>clusterAssignments_C := ?asg\<rparr>)"
    by simp
  let ?a1 = "args\<lparr>clusterAssignments_C := ?asg\<rparr>"
  have r1: "\<forall>m<nat (M_C ?a1). 0 \<le> clusterAssignments_C ?a1 ! m \<and>
              clusterAssignments_C ?a1 ! m < K_C ?a1"
    using r K M by auto
  have a2: "computeCentroids ?a1 = Inr ?a1"
    using N K r1 by (intro computeCentroids_no_dims) simp_all
  have "\<exists>c. computeCost ?a1 = Inr (?a1\<lparr>currCost_C := c\<rparr>) \<and> length c = nat (K_C ?a1) \<and>
           (N_C ?a1 \<le> 0 \<longrightarrow> c = replicate (nat (K_C ?a1)) 0)"
    using K cc r1 by (intro computeCost_ok) simp_all
  then have "computeCost ?a1 = Inr (?a1\<lparr>currCost_C := replicate ?K 0\<rparr>)"
    using N by auto
  then have a3: "computeCost ?a1 = Inr ?a1"
    by (simp add: cc)
  have prev: "fold (\<lambda>k p. p[k := currCost_C args ! k]) [0..<?K] prevCost = currCost_C args"
    using cc p by (intro copy_loop) simp_all
  have iter: "kMeansIter T (prevCost, args) = Inr (currCost_C args, ?a1)"
    by (simp add: kMeansIter_def a1 a2 a3 prev)
  have stop: "stoppingConditionMet (currCost_C args) (currCost_C ?a1) epsilon (K_C ?a1)"
    using eps by (simp add: stoppingConditionMet_iff)
  have "kMeansLoop epsilon T (currCost_C args, ?a1) = Some (Inr ?a1)"
    using stop by (subst kMeansLoop.simps) simp
  then show ?thesis
    using ns iter by (subst kMeansLoop.simps) simp
qed

text \<open>
  Claim C3 says that \<open>kMeansThread\<close> rejects \<open>M \<le> 0\<close>, \<open>N \<le> 0\<close> or \<open>K \<le> 0\<close> with an
  error before it allocates anything. With \<open>M = 0\<close> points, one centroid \<open>5\<close> in one
  dimension and \<open>epsilon = 0.1\<close> the function allocates its cost arrays, runs one
  iteration, overwrites the centroid with \<open>0\<close> and returns normally.
\<close>

theorem kMeansThread_no_validation_counterexample:
  "kMeansThread [] [5] [] 0 1 1 (1 / 10) = Some (Inr ([0], []))"
  apply (simp add: kMeansThread_def kMeansThreadWith_def Let_def)
  apply (subst kMeansLoop.simps)
  apply (simp add: stoppingConditionMet_def kMeansIter_def Let_def)
  apply (simp add: computeAssignments_def args_arr_def signed_divide_int_def eval_nat_numeral
     workerThreadStart_empty)
  apply (simp add: computeCentroids_def zeroCentroids_def computeMeans_def computeCost_def Let_def)
  apply (subst kMeansLoop.simps)
  apply (simp add: stoppingConditionMet_def)
  done

text \<open>
  Claim C3, amended. \<open>kMeansThread\<close> checks none of \<open>M\<close>, \<open>N\<close>, \<open>K\<close>. With \<open>K = 0\<close> the
  stopping condition holds at once and the call returns normally with the centroid and
  assignment arrays as they were, whatever \<open>M\<close> and \<open>N\<close> are; with \<open>K < 0\<close> the call
  fails in its first allocation \<^verbatim>\<open>new double[K]\<close>. With \<open>K \<ge> 1\<close> and \<open>epsilon < 1e30\<close>:
  \<^item> for \<open>M = 0\<close> (and \<open>epsilon \<ge> 0\<close>) the call runs a pass of the algorithm over no
    points and returns normally, with the assignment array as it was;
  \<^item> for \<open>M < 0\<close> it fails in the allocation \<^verbatim>\<open>new double[numPoints]\<close> of a worker,
    after the cost arrays have been allocated;
  \<^item> for \<open>N \<le> 0\<close> (and \<open>epsilon \<ge> 0\<close>), an assignment array of \<open>M\<close> entries and those
    of its entries that no worker processes, from index \<open>16 * (M div 16)\<close> on, in
    \<open>[0, K)\<close> at the call, it runs one pass in which every distance is \<open>0\<close> and returns
    normally, with the centroid array as it was and \<open>0\<close> in every processed entry of the
    assignment array.
\<close>

theorem kMeansThread_unvalidated:
  "(K \<le> 0 \<longrightarrow>
      kMeansThread data clusterCentroids clusterAssignments M N K epsilon =
        (if K < 0 then Some (Inl (BadArrayNewLength K))
         else Some (Inr (clusterCentroids, clusterAssignments)))) \<and>
   (M = 0 \<and> 0 < K \<and> 0 \<le> epsilon \<and> epsilon < 10 ^ 30 \<longrightarrow>
      (\<exists>c. kMeansThread data clusterCentroids clusterAssignments M N K epsilon =
             Some (Inr (c, clusterAssignments)))) \<and>
   (M < 0 \<and> 0 < K \<and> epsilon < 10 ^ 30 \<longrightarrow>
      (\<exists>n. kMeansThread data clusterCentroids clusterAssignments M N K epsilon =
             Some (Inl (BadArrayNewLength n)))) \<and>
   (N \<le> 0 \<and> 0 < K \<and> 0 \<le> epsilon \<and> epsilon < 10 ^ 30 \<and>
    M = int (length clusterAssignments) \<and>
    (\<forall>m<length clusterAssignments. (M div 16) * 16 \<le> int m \<longrightarrow>
        0 \<le> clusterAssignments ! m \<and> clusterAssignments ! m < K) \<longrightarrow>
      kMeansThread data clusterCentroids clusterAssignments M N K epsilon =
        Some (Inr (clusterCentroids,
                   map (\<lambda>m. if int m < (M div 16) * 16 then 0 else clusterAssignments ! m)
                       [0..<length clusterAssignments])))"
proof -
  let ?p = "replicate (nat K) (10 ^ 30 :: real)"
  let ?args = "\<lparr>start_C = 0, end_C = 0, data_C = data, clusterCentroids_C = clusterCentroids,
                 clusterAssignments_C = clusterAssignments, currCost_C = replicate (nat K) 0,
                 M_C = M, N_C = N, K_C = K, threadId_C = 0, numThreads_C = 0\<rparr>"
  have ns: "\<not> stoppingConditionMet ?p (currCost_C ?args) epsilon (K_C ?args)"
    if h: "0 < K" "epsilon < 10 ^ 30"
    using first_test_fails [OF h] by simp
  have run: "kMeansThread data clusterCentroids clusterAssignments M N K epsilon =
      (case kMeansLoop epsilon 16 (?p, ?args) of
         None \<Rightarrow> None
       | Some (Inl e) \<Rightarrow> Some (Inl e)
       | Some (Inr a) \<Rightarrow> Some (Inr (clusterCentroids_C a, clusterAssignments_C a)))"
    if "0 \<le> K"
    unfolding kMeansThread_def using that by (rule kMeansThreadWith_loop)
  have part1: "kMeansThread data clusterCentroids clusterAssignments M N K epsilon =
        (if K < 0 then Some (Inl (BadArrayNewLength K))
         else Some (Inr (clusterCentroids, clusterAssignments)))" if K: "K \<le> 0"
  proof (cases "K < 0")
    case True
    then show ?thesis
      by (simp add: kMeansThread_def kMeansThreadWith_def)
  next
    case False
    with K have K0: "K = 0" by simp
    show ?thesis
      unfolding K0
      apply (simp add: kMeansThread_def kMeansThreadWith_def Let_def)
      apply (subst kMeansLoop.simps)
      apply (simp add: stoppingConditionMet_def)
      done
  qed
  have part2: "\<exists>c. kMeansThread data clusterCentroids clusterAssignments M N K epsilon =
             Some (Inr (c, clusterAssignments))"
    if h: "M = 0 \<and> 0 < K \<and> 0 \<le> epsilon \<and> epsilon < 10 ^ 30"
  proof -
    obtain a where a: "kMeansLoop epsilon 16 (?p, ?args) = Some (Inr a)"
      "clusterAssignments_C a = clusterAssignments_C ?args"
      using kMeansLoop_zero_M [of ?args 16 epsilon ?p] ns h by auto
    from h have K: "0 \<le> K"
      by simp
    show ?thesis
      unfolding run [OF K] a(1) by (simp add: a(2))
  qed
  have part3: "\<exists>n. kMeansThread data clusterCentroids clusterAssignments M N K epsilon =
             Some (Inl (BadArrayNewLength n))"
    if h: "M < 0 \<and> 0 < K \<and> epsilon < 10 ^ 30"
  proof -
    obtain n where "kMeansLoop epsilon 16 (?p, ?args) = Some (Inl (BadArrayNewLength n))"
      using kMeansLoop_neg_M [of ?args 16 ?p epsilon] ns h by auto
    moreover from h have "0 \<le> K"
      by simp
    ultimately show ?thesis
      by (simp add: run)
  qed
  have part4: "kMeansThread data clusterCentroids clusterAssignments M N K epsilon =
        Some (Inr (clusterCentroids,
                   map (\<lambda>m. if int m < (M div 16) * 16 then 0 else clusterAssignments ! m)
                       [0..<length clusterAssignments]))"
    if h: "N \<le> 0 \<and> 0 < K \<and> 0 \<le> epsilon \<and> epsilon < 10 ^ 30 \<and>
      M = int (length clusterAssignments) \<and>
      (\<forall>m<length clusterAssignments. (M div 16) * 16 \<le> int m \<longrightarrow>
          0 \<le> clusterAssignments ! m \<and> clusterAssignments ! m < K)"
  proof -
    from h have f: "N \<le> 0" "0 < K" "0 \<le> epsilon" "epsilon < 10 ^ 30"
      "M = int (length clusterAssignments)"
      "\<forall>m<length clusterAssignments. (M div 16) * 16 \<le> int m \<longrightarrow>
          0 \<le> clusterAssignments ! m \<and> clusterAssignments ! m < K"
      by blast+
    have "kMeansLoop epsilon 16 (?p, ?args) =
       Some (Inr (?args\<lparr>clusterAssignments_C :=
          map (\<lambda>m. if int m < (M_C ?args div 16) * 16 then 0 else clusterAssignments_C ?args ! m)
              [0..<length (clusterAssignments_C ?args)]\<rparr>))"
      using f ns [OF f(2,4)] by (intro kMeansLoop_no_dims) simp_all
    moreover have "0 \<le> K"
      using f(2) by simp
    ultimately show ?thesis
      by (simp add: run)
  qed
  from part1 part2 part3 part4 show ?thesis
    by blast
qed

theorem kMeansThread_unvalidated_witness:
  "kMeansThread [1, 2] [] [3, 4] 2 1 0 1 = Some (Inr ([], [3, 4])) \<and>
   kMeansThread [1, 2] [] [3, 4] 2 1 (- 1) 1 = Some (Inl (BadArrayNewLength (- 1))) \<and>
   (\<exists>c. kMeansThread [] [5, 6] [] 0 1 2 (1 / 10) = Some (Inr (c, []))) \<and>
   (\<exists>n. kMeansThread [] [5] [] (- 3) 1 1 (1 / 10) = Some (Inl (BadArrayNewLength n))) \<and>
   kMeansThread [] [] [9, 9, 9, 9, 9, 9, 9, 9, 9, 9, 9, 9, 9, 9, 9, 9] 16 0 1 (1 / 10)
     = Some (Inr ([], [0, 0, 0, 0, 0, 0, 0, 0, 0, 0, 0, 0, 0, 0, 0, 0]))"
  using kMeansThread_unvalidated [of 0 "[1, 2]" "[]" "[3, 4]" 2 1 1]
    kMeansThread_unvalidated [of "- 1" "[1, 2]" "[]" "[3, 4]" 2 1 1]
    kMeansThread_unvalidated [of 2 "[]" "[5, 6]" "[]" 0 1 "1 / 10"]
    kMeansThread_unvalidated [of 1 "[]" "[5]" "[]" "- 3" 1 "1 / 10"]
    kMeansThread_unvalidated [of 1 "[]" "[]" "[9, 9, 9, 9, 9, 9, 9, 9, 9, 9, 9, 9, 9, 9, 9, 9]" 16 0 "1 / 10"]
  by (simp add: eval_nat_numeral)

end
